theory Spec2Isabelle
  imports Main
begin

section \<open>JavaScript values and plain objects\<close>

text \<open>
  The module \<^verbatim>\<open>data/index.js\<close> keeps four module-level variables (\<^verbatim>\<open>stores\<close>,
  \<^verbatim>\<open>selectors\<close>, \<^verbatim>\<open>actions\<close>, \<^verbatim>\<open>listeners\<close>) and defines three higher-order
  components over them. The embedding threads one record (the world) through every
  function; a function that can raise returns \<open>err + 'r\<close> together with the world it
  leaves behind, because a JavaScript exception does not undo assignments made before it.

  Values compared with \<^verbatim>\<open>===\<close> are modelled so that HOL equality is that comparison:
  primitives by value, objects and functions by an identity (\<open>JRef\<close>). Numbers are
  integers here, so \<^verbatim>\<open>NaN\<close> is not a value of the model.
\<close>

datatype jsval = JUndefined | JNull | JBool bool | JNum int | JStr string | JRef nat

text \<open>
  A plain object: its own enumerable properties in enumeration order.
\<close>

type_synonym 'v obj = "(string \<times> 'v) list"

text \<open>
  Reading \<^verbatim>\<open>object[key]\<close> follows the prototype chain, so on a plain object a key
  that is not an own property still yields a value when \<^verbatim>\<open>Object.prototype\<close> has a
  property of that name. These are its property names.
\<close>

definition object_prototype_names :: "string list" where
  "object_prototype_names =
     [''constructor'', ''__defineGetter__'', ''__defineSetter__'', ''hasOwnProperty'',
      ''__lookupGetter__'', ''__lookupSetter__'', ''isPrototypeOf'', ''propertyIsEnumerable'',
      ''toString'', ''valueOf'', ''__proto__'', ''toLocaleString'']"

text \<open>
  The result of reading a registry under a key: \<open>Undefined\<close>, the value registered
  under the key, or \<open>Inherited\<close> for a value found on the prototype chain (a function of
  \<^verbatim>\<open>Object.prototype\<close>, or that object itself for \<^verbatim>\<open>__proto__\<close>).
\<close>

datatype 'v lookup = Undefined | Registered 'v | Inherited

definition getProp :: "'v obj \<Rightarrow> string \<Rightarrow> 'v option" where
  "getProp ob k = map_of ob k"

definition keys :: "'v obj \<Rightarrow> string list" where
  "keys ob = map fst ob"

definition hasOwnProperty :: "'v obj \<Rightarrow> string \<Rightarrow> bool" where
  "hasOwnProperty ob k \<longleftrightarrow> k \<in> set (keys ob)"

text \<open>lodash \<^verbatim>\<open>mapValues(object, (value, key) => ...)\<close>, \<^verbatim>\<open>omitBy\<close> and \<^verbatim>\<open>without\<close>.\<close>

definition mapValues :: "('v \<Rightarrow> string \<Rightarrow> 'w) \<Rightarrow> 'v obj \<Rightarrow> 'w obj" where
  "mapValues f ob = map (\<lambda>(k, v). (k, f v k)) ob"

definition omitBy :: "('v \<Rightarrow> string \<Rightarrow> bool) \<Rightarrow> 'v obj \<Rightarrow> 'v obj" where
  "omitBy p ob = filter (\<lambda>(k, v). \<not> p v k) ob"

definition without :: "'x list \<Rightarrow> 'x \<Rightarrow> 'x list" where
  "without xs v = filter (\<lambda>x. x \<noteq> v) xs"

text \<open>
  \<^verbatim>\<open>shallowequal\<close> on two objects: the same number of keys, every key of the first is
  a key of the second, and the two values under it are \<^verbatim>\<open>===\<close>. On two argument
  arrays the keys are the indices.
\<close>

definition isShallowEqual :: "'v obj \<Rightarrow> 'v obj \<Rightarrow> bool" where
  "isShallowEqual a b \<longleftrightarrow>
     length (keys a) = length (keys b) \<and>
     list_all (\<lambda>k. hasOwnProperty b k \<and> getProp a k = getProp b k) (keys a)"

definition isShallowEqualArr :: "jsval list \<Rightarrow> jsval list \<Rightarrow> bool" where
  "isShallowEqualArr a b \<longleftrightarrow> list_all2 (\<lambda>x y. x = y) a b"

text \<open>Writing one property, and React's \<^verbatim>\<open>setState(partial)\<close> merge of a partial state.\<close>

definition setProp :: "'v obj \<Rightarrow> string \<Rightarrow> 'v \<Rightarrow> 'v obj" where
  "setProp ob k v =
     (if hasOwnProperty ob k then map (\<lambda>(k', v'). if k' = k then (k', v) else (k', v')) ob
      else ob @ [(k, v)])"

definition assign :: "'v obj \<Rightarrow> 'v obj \<Rightarrow> 'v obj" where
  "assign target source = foldl (\<lambda>acc (k, v). setProp acc k v) target source"

section \<open>Errors, listeners and the trace\<close>

datatype err = TypeError | Thrown nat

datatype cref = SelectComp nat | DataComp nat

text \<open>
  A listener is a function object. The module itself subscribes the bound
  \<^verbatim>\<open>runSelection\<close> of each component instance; any other listener is a function of
  the caller, identified by a number. What such a function does when called is a script
  of calls back into the module (\<open>ext_code\<close> in the world): it can raise, subscribe,
  call an unsubscribe closure, or cause a component to unmount. A listener that
  dispatches from inside a notification is outside the model.
\<close>

datatype listener = Ext nat | RunSelection cref

datatype lcmd = LThrow nat | LSubscribe listener | LUnsubscribe listener | LUnmount cref

text \<open>
  The trace is a ghost record of what happened, in order: \<open>EvFire\<close> for each call of
  \<^verbatim>\<open>globalListener\<close>, \<open>EvCall l\<close> for each listener it invokes, \<open>EvEffect f args\<close>
  for each call of a selector's \<^verbatim>\<open>effect\<close> function \<open>f\<close>, \<open>EvSetState c\<close> for each
  \<^verbatim>\<open>this.setState\<close> of a component, \<open>EvUnmount c\<close> when a component unmounts.
\<close>

datatype event =
    EvFire
  | EvCall listener
  | EvEffect nat "jsval list"
  | EvSetState cref
  | EvUnmount cref

section \<open>The world\<close>

text \<open>
  A reducer is a JavaScript function \<^verbatim>\<open>(state, action) => state\<close>. Redux calls it
  once with an undefined state when the store is created (\<open>initialState\<close>) and once for
  every dispatched action (\<open>reduce\<close>). Equality on \<open>'s\<close> is \<^verbatim>\<open>===\<close> on states.
\<close>

record ('s, 'a) reducer =
  initialState :: 's
  reduce :: "'s \<Rightarrow> 'a \<Rightarrow> 's"

text \<open>
  A store created by \<^verbatim>\<open>registerReducer\<close>: the Redux store (reducer and current state)
  and \<^verbatim>\<open>lastState\<close>, the variable captured by the one function \<^verbatim>\<open>registerReducer\<close>
  subscribes to it.
\<close>

record ('s, 'a) store =
  st_reducer :: "('s, 'a) reducer"
  st_state :: 's
  st_lastState :: 's

text \<open>
  \<^verbatim>\<open>createStateSelector(selector)\<close> and \<^verbatim>\<open>createBoundAction(action)\<close> return
  closures over \<^verbatim>\<open>store\<close>, the value of \<^verbatim>\<open>stores[reducerKey]\<close> at registration:
  \<open>Some\<close> of the store registered under the key, or \<open>None\<close> when the value is not a
  store (undefined, or a value inherited through the prototype chain of \<^verbatim>\<open>stores\<close>, on
  which \<^verbatim>\<open>getState\<close> and \<^verbatim>\<open>dispatch\<close> are undefined); calling the closure then raises
  a TypeError. \<open>NotAFunction\<close> stands for a property value that cannot be called
  (\<^verbatim>\<open>undefined\<close>).
\<close>

datatype 's bound_select =
    BoundSelect (bs_store: "nat option") (bs_selector: "'s \<Rightarrow> jsval list \<Rightarrow> jsval")
  | NotAFunction

record 's selector_entry =
  se_select :: "'s bound_select"
  se_effect :: "nat option"

record 'a bound_action =
  ba_store :: "nat option"
  ba_action :: "jsval list \<Rightarrow> 'a"

text \<open>What a caller passes as a selector: a function, or an object with \<^verbatim>\<open>select\<close> and maybe \<^verbatim>\<open>effect\<close>.\<close>

datatype 's selector_def =
    SelectorFn "'s \<Rightarrow> jsval list \<Rightarrow> jsval"
  | SelectorObj "'s \<Rightarrow> jsval list \<Rightarrow> jsval" "nat option"

record ('s, 'a) store_options =
  opt_reducer :: "('s, 'a) reducer option"
  opt_actions :: "(jsval list \<Rightarrow> 'a) obj option"
  opt_selectors :: "'s selector_def obj option"

text \<open>
  Component instances. \<open>mapStateToProps\<close> is the function given to the higher-order
  component; it sees the registry only through the function it is handed
  (\<^verbatim>\<open>select\<close>, or the \<^verbatim>\<open>resolve\<close> of \<^verbatim>\<open>withData\<close>), here a function of reducer key,
  selector name and arguments. Asking for a selector name that the key does not have
  raises a TypeError, as calling an undefined property does; the mapping function does
  not ask for the names every object inherits (\<^verbatim>\<open>toString\<close> and the like).
  \<open>unsubscribe\<close> holds the listener captured by the closure that \<^verbatim>\<open>subscribe\<close>
  returned.
\<close>

record select_comp =
  sc_mapStateToProps :: "(string \<Rightarrow> string \<Rightarrow> jsval list \<Rightarrow> err + jsval) \<Rightarrow> jsval obj \<Rightarrow> err + jsval obj option"
  sc_props :: "jsval obj"
  sc_mergeProps :: "jsval obj option"
  sc_isUnmounting :: bool
  sc_unsubscribe :: "listener option"

record resolver =
  rs_args :: "jsval list"
  rs_key :: string
  rs_reducerKey :: string

record data_comp =
  dc_mapStateToProps :: "(string \<Rightarrow> string \<Rightarrow> jsval list \<Rightarrow> err + resolver) \<Rightarrow> jsval obj \<Rightarrow> err + resolver obj"
  dc_props :: "jsval obj"
  dc_state :: "jsval obj"
  dc_resolvers :: "resolver obj"
  dc_unsubscribe :: "listener option"

record ('s, 'a) world =
  stores :: "string \<rightharpoonup> nat"
  selectors :: "string \<rightharpoonup> 's selector_entry obj"
  actions :: "string \<rightharpoonup> 'a bound_action obj"
  listeners :: "listener list"
  store_objs :: "('s, 'a) store list"
  select_comps :: "select_comp list"
  data_comps :: "data_comp list"
  ext_code :: "nat \<Rightarrow> lcmd list"
  trace :: "event list"

definition init_world :: "(nat \<Rightarrow> lcmd list) \<Rightarrow> ('s, 'a) world" where
  "init_world code =
     \<lparr>stores = Map.empty, selectors = Map.empty, actions = Map.empty, listeners = [],
      store_objs = [], select_comps = [], data_comps = [], ext_code = code, trace = []\<rparr>"

definition emit :: "event \<Rightarrow> ('s, 'a) world \<Rightarrow> ('s, 'a) world" where
  "emit e w = w\<lparr>trace := trace w @ [e]\<rparr>"

definition upd_select :: "nat \<Rightarrow> (select_comp \<Rightarrow> select_comp) \<Rightarrow> ('s, 'a) world \<Rightarrow> ('s, 'a) world" where
  "upd_select c f w = w\<lparr>select_comps := (select_comps w)[c := f (select_comps w ! c)]\<rparr>"

definition upd_data :: "nat \<Rightarrow> (data_comp \<Rightarrow> data_comp) \<Rightarrow> ('s, 'a) world \<Rightarrow> ('s, 'a) world" where
  "upd_data c f w = w\<lparr>data_comps := (data_comps w)[c := f (data_comps w ! c)]\<rparr>"

section \<open>The listener bus: subscribe\<close>

text \<open>
  \<^verbatim>\<open>subscribe\<close> pushes the listener and returns a closure over it; the closure is
  represented by the listener it captured, and \<open>call_unsubscribe\<close> runs its body,
  \<^verbatim>\<open>listeners = without(listeners, listener)\<close>. Neither has a raising branch.
\<close>

datatype unsubscribe = Unsubscribe listener

definition subscribe :: "listener \<Rightarrow> ('s, 'a) world \<Rightarrow> unsubscribe \<times> ('s, 'a) world" where
  "subscribe listener w = (Unsubscribe listener, w\<lparr>listeners := listeners w @ [listener]\<rparr>)"

fun call_unsubscribe :: "unsubscribe \<Rightarrow> ('s, 'a) world \<Rightarrow> ('s, 'a) world" where
  "call_unsubscribe (Unsubscribe listener) w = w\<lparr>listeners := without (listeners w) listener\<rparr>"

section \<open>Reading the registries: select and dispatch\<close>

text \<open>
  \<^verbatim>\<open>select\<close> maps over \<^verbatim>\<open>selectors[ reducerKey ]\<close>, and \<^verbatim>\<open>selectors\<close> is a plain
  object. \<^verbatim>\<open>mapValues\<close> of undefined, of a function inherited from
  \<^verbatim>\<open>Object.prototype\<close> and of \<^verbatim>\<open>Object.prototype\<close> itself is the empty object: none has
  an own enumerable property. An assignment \<^verbatim>\<open>selectors[ '__proto__' ] = mapping\<close>
  makes the mapping the prototype of \<^verbatim>\<open>selectors\<close> (and \<^verbatim>\<open>selectors[ '__proto__' ]\<close>
  then reads it back); a key of that mapping which is not registered itself then reads
  one selector entry, and \<^verbatim>\<open>mapValues\<close> of an entry \<^verbatim>\<open>{select, effect}\<close> has the
  entry's keys, each with the value \<^verbatim>\<open>undefined\<close> (a function has no \<^verbatim>\<open>select\<close>).
\<close>

definition entry_keys :: "'s selector_entry \<Rightarrow> string list" where
  "entry_keys entry = ''select'' # (case se_effect entry of None \<Rightarrow> [] | Some effect \<Rightarrow> [''effect''])"

definition select :: "string \<Rightarrow> ('s, 'a) world \<Rightarrow> 's bound_select obj" where
  "select reducerKey w =
     (case selectors w reducerKey of
        Some sels \<Rightarrow> mapValues (\<lambda>selector _. se_select selector) sels
      | None \<Rightarrow>
          (case selectors w ''__proto__'' of
             None \<Rightarrow> []
           | Some proto \<Rightarrow>
               (case getProp proto reducerKey of
                  None \<Rightarrow> []
                | Some entry \<Rightarrow> map (\<lambda>k. (k, NotAFunction)) (entry_keys entry))))"

text \<open>
  \<^verbatim>\<open>dispatch\<close> returns \<^verbatim>\<open>actions[ reducerKey ]\<close> as it is, and \<^verbatim>\<open>actions\<close> is a plain
  object. An assignment \<^verbatim>\<open>actions[ '__proto__' ] = mapping\<close> makes the mapping the
  prototype of \<^verbatim>\<open>actions\<close> (and \<^verbatim>\<open>actions[ '__proto__' ]\<close> then reads it back), so the
  names of that mapping are inherited too.
\<close>

definition dispatch :: "string \<Rightarrow> ('s, 'a) world \<Rightarrow> 'a bound_action obj lookup" where
  "dispatch reducerKey w =
     (case actions w reducerKey of
        Some acts \<Rightarrow> Registered acts
      | None \<Rightarrow>
          if reducerKey \<in> set object_prototype_names \<or>
             (case actions w ''__proto__'' of
                None \<Rightarrow> False
              | Some proto \<Rightarrow> hasOwnProperty proto reducerKey)
          then Inherited
          else Undefined)"

text \<open>Calling the closure \<^verbatim>\<open>(...args) => selector(store.getState(), ...args)\<close>.\<close>

definition call_select :: "'s bound_select \<Rightarrow> jsval list \<Rightarrow> ('s, 'a) world \<Rightarrow> err + jsval" where
  "call_select bs args w =
     (case bs of
        NotAFunction \<Rightarrow> Inl TypeError
      | BoundSelect store selector \<Rightarrow>
          (case store of
             None \<Rightarrow> Inl TypeError
           | Some sid \<Rightarrow>
               if sid < length (store_objs w)
               then Inr (selector (st_state (store_objs w ! sid)) args)
               else Inl TypeError))"

text \<open>\<^verbatim>\<open>select(reducerKey)[name](...args)\<close> as the mapping function of a component calls it.\<close>

definition select_call :: "('s, 'a) world \<Rightarrow> string \<Rightarrow> string \<Rightarrow> jsval list \<Rightarrow> err + jsval" where
  "select_call w reducerKey name args =
     (case getProp (select reducerKey w) name of
        None \<Rightarrow> Inl TypeError
      | Some bs \<Rightarrow> call_select bs args w)"

section \<open>The Selection Adapter (withSelect)\<close>

definition withSelect_setState :: "nat \<Rightarrow> jsval obj \<Rightarrow> ('s, 'a) world \<Rightarrow> ('s, 'a) world" where
  "withSelect_setState c mergeProps w =
     upd_select c (\<lambda>comp. comp\<lparr>sc_mergeProps := Some mergeProps\<rparr>) (emit (EvSetState (SelectComp c)) w)"

definition withSelect_runSelection ::
  "nat \<Rightarrow> jsval obj option \<Rightarrow> ('s, 'a) world \<Rightarrow> (err + unit) \<times> ('s, 'a) world" where
  "withSelect_runSelection c propsArg w =
     (if length (select_comps w) \<le> c then (Inl TypeError, w)
      else
        let comp = select_comps w ! c in
        if sc_isUnmounting comp then (Inr (), w)
        else
          let props = (case propsArg of None \<Rightarrow> sc_props comp | Some p \<Rightarrow> p) in
          case sc_mapStateToProps comp (select_call w) props of
            Inl e \<Rightarrow> (Inl e, w)
          | Inr r \<Rightarrow>
              let nextMergeProps = (case r of None \<Rightarrow> [] | Some ob \<Rightarrow> ob) in
              if \<not> (case sc_mergeProps comp of
                       None \<Rightarrow> False
                     | Some mergeProps \<Rightarrow> isShallowEqual nextMergeProps mergeProps)
              then (Inr (), withSelect_setState c nextMergeProps w)
              else (Inr (), w))"

definition withSelect_subscribe :: "nat \<Rightarrow> ('s, 'a) world \<Rightarrow> ('s, 'a) world" where
  "withSelect_subscribe c w =
     (case subscribe (RunSelection (SelectComp c)) w of
        (Unsubscribe l, w') \<Rightarrow> upd_select c (\<lambda>comp. comp\<lparr>sc_unsubscribe := Some l\<rparr>) w')"

definition withSelect_componentWillMount :: "nat \<Rightarrow> ('s, 'a) world \<Rightarrow> (err + unit) \<times> ('s, 'a) world" where
  "withSelect_componentWillMount c w = withSelect_runSelection c None (withSelect_subscribe c w)"

definition withSelect_componentWillReceiveProps ::
  "nat \<Rightarrow> jsval obj \<Rightarrow> ('s, 'a) world \<Rightarrow> (err + unit) \<times> ('s, 'a) world" where
  "withSelect_componentWillReceiveProps c nextProps w =
     (if length (select_comps w) \<le> c then (Inl TypeError, w)
      else if \<not> isShallowEqual nextProps (sc_props (select_comps w ! c))
      then withSelect_runSelection c (Some nextProps) w
      else (Inr (), w))"

definition withSelect_componentWillUnmount :: "nat \<Rightarrow> ('s, 'a) world \<Rightarrow> (err + unit) \<times> ('s, 'a) world" where
  "withSelect_componentWillUnmount c w =
     (if length (select_comps w) \<le> c then (Inl TypeError, w)
      else
        case sc_unsubscribe (select_comps w ! c) of
          None \<Rightarrow> (Inl TypeError, w)
        | Some l \<Rightarrow>
            (Inr (), upd_select c (\<lambda>comp. comp\<lparr>sc_isUnmounting := True\<rparr>)
                       (call_unsubscribe (Unsubscribe l) w)))"

section \<open>The Resolution Adapter (withData)\<close>

text \<open>The inner \<^verbatim>\<open>resolve(reducerKey)[key](...args)\<close> of \<^verbatim>\<open>ComponentWithData.resolve\<close>.\<close>

definition resolve_call :: "('s, 'a) world \<Rightarrow> string \<Rightarrow> string \<Rightarrow> jsval list \<Rightarrow> err + resolver" where
  "resolve_call w reducerKey key args =
     (case selectors w reducerKey of
        None \<Rightarrow> Inl TypeError
      | Some sels \<Rightarrow>
          if hasOwnProperty sels key
          then Inr \<lparr>rs_args = args, rs_key = key, rs_reducerKey = reducerKey\<rparr>
          else Inl TypeError)"

definition withData_resolve :: "nat \<Rightarrow> jsval obj \<Rightarrow> ('s, 'a) world \<Rightarrow> err + resolver obj" where
  "withData_resolve c props w = dc_mapStateToProps (data_comps w ! c) (resolve_call w) props"

text \<open>\<^verbatim>\<open>selectors[reducerKey][key]\<close>, raising where the source reads a property of undefined.\<close>

definition lookup_selector :: "('s, 'a) world \<Rightarrow> string \<Rightarrow> string \<Rightarrow> err + 's selector_entry" where
  "lookup_selector w reducerKey key =
     (case selectors w reducerKey of
        None \<Rightarrow> Inl TypeError
      | Some sels \<Rightarrow> (case getProp sels key of None \<Rightarrow> Inl TypeError | Some selector \<Rightarrow> Inr selector))"

fun withData_runSideEffects :: "resolver obj \<Rightarrow> ('s, 'a) world \<Rightarrow> (err + unit) \<times> ('s, 'a) world" where
  "withData_runSideEffects [] w = (Inr (), w)"
| "withData_runSideEffects ((propKey, r) # rest) w =
     (case lookup_selector w (rs_reducerKey r) (rs_key r) of
        Inl e \<Rightarrow> (Inl e, w)
      | Inr selector \<Rightarrow>
          (case se_effect selector of
             None \<Rightarrow> withData_runSideEffects rest w
           | Some effect \<Rightarrow> withData_runSideEffects rest (emit (EvEffect effect (rs_args r)) w)))"

fun select_resolvers :: "('s, 'a) world \<Rightarrow> resolver obj \<Rightarrow> err + jsval obj" where
  "select_resolvers w [] = Inr []"
| "select_resolvers w ((propKey, r) # rest) =
     (case lookup_selector w (rs_reducerKey r) (rs_key r) of
        Inl e \<Rightarrow> Inl e
      | Inr selector \<Rightarrow>
          (case call_select (se_select selector) (rs_args r) w of
             Inl e \<Rightarrow> Inl e
           | Inr v \<Rightarrow>
               (case select_resolvers w rest of
                  Inl e \<Rightarrow> Inl e
                | Inr ob \<Rightarrow> Inr ((propKey, v) # ob))))"

definition withData_setState :: "nat \<Rightarrow> jsval obj \<Rightarrow> ('s, 'a) world \<Rightarrow> ('s, 'a) world" where
  "withData_setState c newState w =
     upd_data c (\<lambda>comp. comp\<lparr>dc_state := assign (dc_state comp) newState\<rparr>) (emit (EvSetState (DataComp c)) w)"

definition withData_runSelection :: "nat \<Rightarrow> ('s, 'a) world \<Rightarrow> (err + unit) \<times> ('s, 'a) world" where
  "withData_runSelection c w =
     (if length (data_comps w) \<le> c then (Inl TypeError, w)
      else
        case select_resolvers w (dc_resolvers (data_comps w ! c)) of
          Inl e \<Rightarrow> (Inl e, w)
        | Inr newState \<Rightarrow>
            if \<not> isShallowEqual newState (dc_state (data_comps w ! c))
            then (Inr (), withData_setState c newState w)
            else (Inr (), w))"

definition newResolvers :: "resolver obj \<Rightarrow> resolver obj \<Rightarrow> resolver obj" where
  "newResolvers previous resolvers =
     omitBy (\<lambda>resolver key.
               case getProp previous key of
                 None \<Rightarrow> False
               | Some previousResolver \<Rightarrow>
                   rs_key previousResolver = rs_key resolver \<and>
                   isShallowEqualArr (rs_args previousResolver) (rs_args resolver))
            resolvers"

definition withData_runResolvers ::
  "nat \<Rightarrow> jsval obj option \<Rightarrow> ('s, 'a) world \<Rightarrow> (err + unit) \<times> ('s, 'a) world" where
  "withData_runResolvers c propsArg w =
     (if length (data_comps w) \<le> c then (Inl TypeError, w)
      else
        let comp = data_comps w ! c;
            props = (case propsArg of None \<Rightarrow> dc_props comp | Some p \<Rightarrow> p) in
        case withData_resolve c props w of
          Inl e \<Rightarrow> (Inl e, w)
        | Inr resolvers \<Rightarrow>
            (let new = newResolvers (dc_resolvers comp) resolvers;
                 w1 = upd_data c (\<lambda>d. d\<lparr>dc_resolvers := resolvers\<rparr>) w
             in (case withData_runSideEffects new w1 of
                   (Inl e, w2) \<Rightarrow> (Inl e, w2)
                 | (Inr _, w2) \<Rightarrow> withData_runSelection c w2)))"

definition withData_subscribe :: "nat \<Rightarrow> ('s, 'a) world \<Rightarrow> ('s, 'a) world" where
  "withData_subscribe c w =
     (case subscribe (RunSelection (DataComp c)) w of
        (Unsubscribe l, w') \<Rightarrow> upd_data c (\<lambda>comp. comp\<lparr>dc_unsubscribe := Some l\<rparr>) w')"

definition withData_componentWillMount :: "nat \<Rightarrow> ('s, 'a) world \<Rightarrow> (err + unit) \<times> ('s, 'a) world" where
  "withData_componentWillMount c w = withData_runResolvers c None (withData_subscribe c w)"

definition withData_componentWillReceiveProps ::
  "nat \<Rightarrow> jsval obj \<Rightarrow> ('s, 'a) world \<Rightarrow> (err + unit) \<times> ('s, 'a) world" where
  "withData_componentWillReceiveProps c nextProps w =
     (if length (data_comps w) \<le> c then (Inl TypeError, w)
      else if \<not> isShallowEqual nextProps (dc_props (data_comps w ! c))
      then withData_runResolvers c (Some nextProps) w
      else (Inr (), w))"

definition withData_componentWillUnmount :: "nat \<Rightarrow> ('s, 'a) world \<Rightarrow> (err + unit) \<times> ('s, 'a) world" where
  "withData_componentWillUnmount c w =
     (if length (data_comps w) \<le> c then (Inl TypeError, w)
      else
        case dc_unsubscribe (data_comps w ! c) of
          None \<Rightarrow> (Inl TypeError, w)
        | Some l \<Rightarrow> (Inr (), call_unsubscribe (Unsubscribe l) w))"

section \<open>The component library's side: mounting, new props, unmounting\<close>

text \<open>
  React is not part of the module. What the module relies on is modelled here: an
  instance is constructed and \<^verbatim>\<open>componentWillMount\<close> runs; new props reach
  \<^verbatim>\<open>componentWillReceiveProps\<close> before they become \<^verbatim>\<open>this.props\<close>; unmounting runs
  \<^verbatim>\<open>componentWillUnmount\<close>. \<^verbatim>\<open>setState\<close> stores the state at once.
\<close>

definition mount_select ::
  "((string \<Rightarrow> string \<Rightarrow> jsval list \<Rightarrow> err + jsval) \<Rightarrow> jsval obj \<Rightarrow> err + jsval obj option) \<Rightarrow> jsval obj \<Rightarrow>
   ('s, 'a) world \<Rightarrow> (err + nat) \<times> ('s, 'a) world" where
  "mount_select mapStateToProps props w =
     (let c = length (select_comps w);
          comp = \<lparr>sc_mapStateToProps = mapStateToProps, sc_props = props, sc_mergeProps = None,
                  sc_isUnmounting = False, sc_unsubscribe = None\<rparr>
      in case withSelect_componentWillMount c (w\<lparr>select_comps := select_comps w @ [comp]\<rparr>) of
           (Inl e, w') \<Rightarrow> (Inl e, w')
         | (Inr _, w') \<Rightarrow> (Inr c, w'))"

definition mount_data ::
  "((string \<Rightarrow> string \<Rightarrow> jsval list \<Rightarrow> err + resolver) \<Rightarrow> jsval obj \<Rightarrow> err + resolver obj) \<Rightarrow> jsval obj \<Rightarrow>
   ('s, 'a) world \<Rightarrow> (err + nat) \<times> ('s, 'a) world" where
  "mount_data mapStateToProps props w =
     (let c = length (data_comps w);
          comp = \<lparr>dc_mapStateToProps = mapStateToProps, dc_props = props, dc_state = [],
                  dc_resolvers = [], dc_unsubscribe = None\<rparr>
      in case withData_componentWillMount c (w\<lparr>data_comps := data_comps w @ [comp]\<rparr>) of
           (Inl e, w') \<Rightarrow> (Inl e, w')
         | (Inr _, w') \<Rightarrow> (Inr c, w'))"

definition receive_props_data ::
  "nat \<Rightarrow> jsval obj \<Rightarrow> ('s, 'a) world \<Rightarrow> (err + unit) \<times> ('s, 'a) world" where
  "receive_props_data c nextProps w =
     (case withData_componentWillReceiveProps c nextProps w of
        (Inl e, w') \<Rightarrow> (Inl e, w')
      | (Inr _, w') \<Rightarrow> (Inr (), upd_data c (\<lambda>comp. comp\<lparr>dc_props := nextProps\<rparr>) w'))"

definition receive_props_select ::
  "nat \<Rightarrow> jsval obj \<Rightarrow> ('s, 'a) world \<Rightarrow> (err + unit) \<times> ('s, 'a) world" where
  "receive_props_select c nextProps w =
     (case withSelect_componentWillReceiveProps c nextProps w of
        (Inl e, w') \<Rightarrow> (Inl e, w')
      | (Inr _, w') \<Rightarrow> (Inr (), upd_select c (\<lambda>comp. comp\<lparr>sc_props := nextProps\<rparr>) w'))"

fun unmount :: "cref \<Rightarrow> ('s, 'a) world \<Rightarrow> (err + unit) \<times> ('s, 'a) world" where
  "unmount (SelectComp c) w = withSelect_componentWillUnmount c (emit (EvUnmount (SelectComp c)) w)"
| "unmount (DataComp c) w = withData_componentWillUnmount c (emit (EvUnmount (DataComp c)) w)"

section \<open>The listener bus: globalListener\<close>

fun run_cmd :: "lcmd \<Rightarrow> ('s, 'a) world \<Rightarrow> (err + unit) \<times> ('s, 'a) world" where
  "run_cmd (LThrow n) w = (Inl (Thrown n), w)"
| "run_cmd (LSubscribe l) w = (Inr (), snd (subscribe l w))"
| "run_cmd (LUnsubscribe l) w = (Inr (), call_unsubscribe (Unsubscribe l) w)"
| "run_cmd (LUnmount c) w = unmount c w"

fun run_script :: "lcmd list \<Rightarrow> ('s, 'a) world \<Rightarrow> (err + unit) \<times> ('s, 'a) world" where
  "run_script [] w = (Inr (), w)"
| "run_script (cmd # cmds) w =
     (case run_cmd cmd w of
        (Inl e, w') \<Rightarrow> (Inl e, w')
      | (Inr _, w') \<Rightarrow> run_script cmds w')"

fun call_listener :: "listener \<Rightarrow> ('s, 'a) world \<Rightarrow> (err + unit) \<times> ('s, 'a) world" where
  "call_listener (Ext n) w = run_script (ext_code w n) w"
| "call_listener (RunSelection (SelectComp c)) w = withSelect_runSelection c None w"
| "call_listener (RunSelection (DataComp c)) w = withData_runSelection c w"

text \<open>
  \<^verbatim>\<open>listeners.forEach( ( listener ) => listener() )\<close>. \<^verbatim>\<open>forEach\<close> visits the
  elements the array had when it was called: \<^verbatim>\<open>subscribe\<close> only appends to the array
  and an unsubscribe closure assigns a new array to the variable, so the elements visited
  are the listeners of the world at the start, whatever the listeners do to the bus.
  An exception leaves the loop.
\<close>

fun forEach_listener :: "listener list \<Rightarrow> ('s, 'a) world \<Rightarrow> (err + unit) \<times> ('s, 'a) world" where
  "forEach_listener [] w = (Inr (), w)"
| "forEach_listener (l # ls) w =
     (case call_listener l (emit (EvCall l) w) of
        (Inl e, w') \<Rightarrow> (Inl e, w')
      | (Inr _, w') \<Rightarrow> forEach_listener ls w')"

definition globalListener :: "('s, 'a) world \<Rightarrow> (err + unit) \<times> ('s, 'a) world" where
  "globalListener w = forEach_listener (listeners w) (emit EvFire w)"

section \<open>The store registry\<close>

text \<open>
  Redux is not part of the module. \<^verbatim>\<open>createStore(reducer)\<close> sets the state to the
  reducer's initial state; \<^verbatim>\<open>store.dispatch(action)\<close> sets the state to
  \<^verbatim>\<open>reducer(state, action)\<close>, calls the subscribed functions and returns the action.
  The store has one subscriber, the function \<^verbatim>\<open>registerReducer\<close> passes to
  \<^verbatim>\<open>store.subscribe\<close> (\<open>store_listener\<close>). The devtools extension is absent.
\<close>

definition getState :: "nat \<Rightarrow> ('s, 'a) world \<Rightarrow> 's" where
  "getState sid w = st_state (store_objs w ! sid)"

definition store_listener :: "nat \<Rightarrow> ('s, 'a) world \<Rightarrow> (err + unit) \<times> ('s, 'a) world" where
  "store_listener sid w =
     (let st = store_objs w ! sid;
          state = st_state st;
          hasChanged = (state \<noteq> st_lastState st);
          w1 = w\<lparr>store_objs := (store_objs w)[sid := st\<lparr>st_lastState := state\<rparr>]\<rparr>
      in if hasChanged then globalListener w1 else (Inr (), w1))"

definition store_dispatch :: "nat \<Rightarrow> 'a \<Rightarrow> ('s, 'a) world \<Rightarrow> (err + 'a) \<times> ('s, 'a) world" where
  "store_dispatch sid action w =
     (if length (store_objs w) \<le> sid then (Inl TypeError, w)
      else
        let st = store_objs w ! sid;
            w1 = w\<lparr>store_objs := (store_objs w)[sid := st\<lparr>st_state := reduce (st_reducer st) (st_state st) action\<rparr>]\<rparr>
        in case store_listener sid w1 of
             (Inl e, w2) \<Rightarrow> (Inl e, w2)
           | (Inr _, w2) \<Rightarrow> (Inr action, w2))"

definition createStore :: "('s, 'a) reducer \<Rightarrow> ('s, 'a) store" where
  "createStore r = \<lparr>st_reducer = r, st_state = initialState r, st_lastState = initialState r\<rparr>"

definition registerReducer :: "string \<Rightarrow> ('s, 'a) reducer \<Rightarrow> ('s, 'a) world \<Rightarrow> nat \<times> ('s, 'a) world" where
  "registerReducer reducerKey r w =
     (let store = length (store_objs w)
      in (store, w\<lparr>store_objs := store_objs w @ [createStore r],
                   stores := (stores w)(reducerKey \<mapsto> store)\<rparr>))"

definition registerSelectors :: "string \<Rightarrow> 's selector_def obj \<Rightarrow> ('s, 'a) world \<Rightarrow> ('s, 'a) world" where
  "registerSelectors reducerKey newSelectors w =
     (let store = stores w reducerKey;
          createStateSelector = (\<lambda>selector. BoundSelect store selector)
      in w\<lparr>selectors := (selectors w)(reducerKey \<mapsto>
             mapValues (\<lambda>selector _.
                 case selector of
                   SelectorFn f \<Rightarrow> \<lparr>se_select = createStateSelector f, se_effect = None\<rparr>
                 | SelectorObj f effect \<Rightarrow> \<lparr>se_select = createStateSelector f, se_effect = effect\<rparr>)
               newSelectors)\<rparr>)"

definition registerActions :: "string \<Rightarrow> (jsval list \<Rightarrow> 'a) obj \<Rightarrow> ('s, 'a) world \<Rightarrow> ('s, 'a) world" where
  "registerActions reducerKey newActions w =
     (let store = stores w reducerKey;
          createBoundAction = (\<lambda>action. \<lparr>ba_store = store, ba_action = action\<rparr>)
      in w\<lparr>actions := (actions w)(reducerKey \<mapsto> mapValues (\<lambda>action _. createBoundAction action) newActions)\<rparr>)"

definition registerStore ::
  "string \<Rightarrow> ('s, 'a) store_options \<Rightarrow> ('s, 'a) world \<Rightarrow> (err + nat) \<times> ('s, 'a) world" where
  "registerStore reducerKey options w =
     (case opt_reducer options of
        None \<Rightarrow> (Inl TypeError, w)
      | Some r \<Rightarrow>
          (case registerReducer reducerKey r w of
             (store, w1) \<Rightarrow>
               let w2 = (case opt_actions options of
                           None \<Rightarrow> w1
                         | Some newActions \<Rightarrow> registerActions reducerKey newActions w1);
                   w3 = (case opt_selectors options of
                           None \<Rightarrow> w2
                         | Some newSelectors \<Rightarrow> registerSelectors reducerKey newSelectors w2)
               in (Inr store, w3)))"

text \<open>Calling the closure \<^verbatim>\<open>(...args) => store.dispatch(action(...args))\<close>.\<close>

definition call_action :: "'a bound_action \<Rightarrow> jsval list \<Rightarrow> ('s, 'a) world \<Rightarrow> (err + 'a) \<times> ('s, 'a) world" where
  "call_action ba args w =
     (case ba_store ba of
        None \<Rightarrow> (Inl TypeError, w)
      | Some sid \<Rightarrow> store_dispatch sid (ba_action ba args) w)"

section \<open>Sequences of calls into the module\<close>

text \<open>
  A caller's program is a sequence of calls; a call that raises leaves its world behind
  and the next call runs in it (the caller caught the exception).
\<close>

datatype ('s, 'a) op =
    OpRegisterStore string "('s, 'a) store_options"
  | OpRegisterReducer string "('s, 'a) reducer"
  | OpRegisterSelectors string "'s selector_def obj"
  | OpRegisterActions string "(jsval list \<Rightarrow> 'a) obj"
  | OpSubscribe listener
  | OpUnsubscribe listener
  | OpGlobalListener
  | OpStoreDispatch nat 'a
  | OpCallAction string string "jsval list"
  | OpMountSelect "(string \<Rightarrow> string \<Rightarrow> jsval list \<Rightarrow> err + jsval) \<Rightarrow> jsval obj \<Rightarrow> err + jsval obj option" "jsval obj"
  | OpMountData "(string \<Rightarrow> string \<Rightarrow> jsval list \<Rightarrow> err + resolver) \<Rightarrow> jsval obj \<Rightarrow> err + resolver obj" "jsval obj"
  | OpReceiveProps cref "jsval obj"
  | OpUnmount cref

fun run_op :: "('s, 'a) op \<Rightarrow> ('s, 'a) world \<Rightarrow> ('s, 'a) world" where
  "run_op (OpRegisterStore reducerKey options) w = snd (registerStore reducerKey options w)"
| "run_op (OpRegisterReducer reducerKey r) w = snd (registerReducer reducerKey r w)"
| "run_op (OpRegisterSelectors reducerKey newSelectors) w = registerSelectors reducerKey newSelectors w"
| "run_op (OpRegisterActions reducerKey newActions) w = registerActions reducerKey newActions w"
| "run_op (OpSubscribe l) w = snd (subscribe l w)"
| "run_op (OpUnsubscribe l) w = call_unsubscribe (Unsubscribe l) w"
| "run_op OpGlobalListener w = snd (globalListener w)"
| "run_op (OpStoreDispatch sid action) w = snd (store_dispatch sid action w)"
| "run_op (OpCallAction reducerKey name args) w =
     (case dispatch reducerKey w of
        Registered acts \<Rightarrow> (case getProp acts name of None \<Rightarrow> w | Some ba \<Rightarrow> snd (call_action ba args w))
      | _ \<Rightarrow> w)"
| "run_op (OpMountSelect mapStateToProps props) w = snd (mount_select mapStateToProps props w)"
| "run_op (OpMountData mapStateToProps props) w = snd (mount_data mapStateToProps props w)"
| "run_op (OpReceiveProps (SelectComp c) nextProps) w = snd (receive_props_select c nextProps w)"
| "run_op (OpReceiveProps (DataComp c) nextProps) w = snd (receive_props_data c nextProps w)"
| "run_op (OpUnmount c) w = snd (unmount c w)"

fun run_ops :: "('s, 'a) op list \<Rightarrow> ('s, 'a) world \<Rightarrow> ('s, 'a) world" where
  "run_ops [] w = w"
| "run_ops (x # xs) w = run_ops xs (run_op x w)"

text \<open>Readings of the trace.\<close>

definition fires :: "('s, 'a) world \<Rightarrow> nat" where
  "fires w = count_list (trace w) EvFire"

fun calls_of :: "event list \<Rightarrow> listener list" where
  "calls_of [] = []"
| "calls_of (EvCall l # es) = l # calls_of es"
| "calls_of (_ # es) = calls_of es"


text \<open>\<open>setState_after_unmount c es\<close>: some \<open>EvSetState c\<close> follows an \<open>EvUnmount c\<close>.\<close>

fun setState_after_unmount :: "cref \<Rightarrow> event list \<Rightarrow> bool" where
  "setState_after_unmount c [] = False"
| "setState_after_unmount c (e # es) =
     (if e = EvUnmount c then EvSetState c \<in> set es \<or> setState_after_unmount c es
      else setState_after_unmount c es)"

text \<open>Which calls register selectors, or actions, under a reducer key.\<close>

fun registers_selectors :: "string \<Rightarrow> ('s, 'a) op \<Rightarrow> bool" where
  "registers_selectors k (OpRegisterStore reducerKey options) =
     (reducerKey = k \<and> opt_reducer options \<noteq> None \<and> opt_selectors options \<noteq> None)"
| "registers_selectors k (OpRegisterSelectors reducerKey newSelectors) = (reducerKey = k)"
| "registers_selectors k _ = False"

fun registers_actions :: "string \<Rightarrow> ('s, 'a) op \<Rightarrow> bool" where
  "registers_actions k (OpRegisterStore reducerKey options) =
     (reducerKey = k \<and> opt_reducer options \<noteq> None \<and> opt_actions options \<noteq> None)"
| "registers_actions k (OpRegisterActions reducerKey newActions) = (reducerKey = k)"
| "registers_actions k _ = False"

text \<open>
  What a call leaves alone: \<open>same_regs\<close> for the registries and the stores, \<open>quiet\<close>
  when moreover \<^verbatim>\<open>globalListener\<close> was not called. \<open>store_ok\<close>: the store exists
  and the \<^verbatim>\<open>lastState\<close> of its subscription is its current state.
\<close>

definition same_regs :: "('s, 'a) world \<Rightarrow> ('s, 'a) world \<Rightarrow> bool" where
  "same_regs w w' \<longleftrightarrow>
     store_objs w' = store_objs w \<and> stores w' = stores w \<and> selectors w' = selectors w \<and>
     actions w' = actions w \<and> ext_code w' = ext_code w"

definition quiet :: "('s, 'a) world \<Rightarrow> ('s, 'a) world \<Rightarrow> bool" where
  "quiet w w' \<longleftrightarrow> same_regs w w' \<and> fires w' = fires w \<and> calls_of (trace w') = calls_of (trace w)"

definition store_ok :: "nat \<Rightarrow> ('s, 'a) world \<Rightarrow> bool" where
  "store_ok sid w \<longleftrightarrow>
     sid < length (store_objs w) \<and> st_lastState (store_objs w ! sid) = st_state (store_objs w ! sid)"

section \<open>The Dispatch Adapter (withDispatch)\<close>












section \<open>Example stores\<close>

text \<open>
  The store of the specification's example: selector \<^verbatim>\<open>getValue = (state) => state.value\<close>,
  action \<^verbatim>\<open>setValue = (v) => ({type: 'SET', value: v})\<close>, and a reducer that handles
  \<^verbatim>\<open>'SET'\<close> by returning a new state object holding the value and returns the state it
  was given for any other action. A state is an object: its identity and its properties.
\<close>

type_synonym ex_state = "nat \<times> jsval obj"

definition ex_reducer :: "(ex_state, jsval obj) reducer" where
  "ex_reducer =
     \<lparr>initialState = (0, []),
      reduce = (\<lambda>state action.
         if getProp action ''type'' = Some (JStr ''SET'')
         then (Suc (fst state),
               setProp (snd state) ''value'' (case getProp action ''value'' of None \<Rightarrow> JUndefined | Some v \<Rightarrow> v))
         else state)\<rparr>"

definition ex_getValue :: "ex_state \<Rightarrow> jsval list \<Rightarrow> jsval" where
  "ex_getValue state args = (case getProp (snd state) ''value'' of None \<Rightarrow> JUndefined | Some v \<Rightarrow> v)"

definition ex_setValue :: "jsval list \<Rightarrow> jsval obj" where
  "ex_setValue args = [(''type'', JStr ''SET''), (''value'', (case args of [] \<Rightarrow> JUndefined | v # _ \<Rightarrow> v))]"

definition ex_options :: "(ex_state, jsval obj) store_options" where
  "ex_options =
     \<lparr>opt_reducer = Some ex_reducer,
      opt_actions = Some [(''setValue'', ex_setValue)],
      opt_selectors = Some [(''getValue'', SelectorFn ex_getValue)]\<rparr>"

text \<open>
  The same store with an effect (function number 7) on a selector that takes an argument,
  and a \<^verbatim>\<open>withData\<close> mapping \<^verbatim>\<open>(resolve, props) => ({item: resolve('key').getItem(props.id)})\<close>.
\<close>

definition ex_item_options :: "(ex_state, jsval obj) store_options" where
  "ex_item_options =
     \<lparr>opt_reducer = Some ex_reducer,
      opt_actions = Some [(''setValue'', ex_setValue)],
      opt_selectors = Some [(''getItem'', SelectorObj ex_getValue (Some 7))]\<rparr>"

definition ex_mapItem :: "(string \<Rightarrow> string \<Rightarrow> jsval list \<Rightarrow> err + resolver) \<Rightarrow> jsval obj \<Rightarrow> err + resolver obj" where
  "ex_mapItem resolve props =
     (case resolve ''key'' ''getItem'' [case getProp props ''id'' of None \<Rightarrow> JUndefined | Some v \<Rightarrow> v] of
        Inl e \<Rightarrow> Inl e
      | Inr r \<Rightarrow> Inr [(''item'', r)])"

text \<open>
  Mappings \<^verbatim>\<open>(resolve) => ({value: resolve('key').getValue()})\<close> for \<^verbatim>\<open>withData\<close> and
  \<^verbatim>\<open>(select) => ({value: select('key').getValue()})\<close> for \<^verbatim>\<open>withSelect\<close>.
\<close>

definition ex_mapData :: "(string \<Rightarrow> string \<Rightarrow> jsval list \<Rightarrow> err + resolver) \<Rightarrow> jsval obj \<Rightarrow> err + resolver obj" where
  "ex_mapData resolve props =
     (case resolve ''key'' ''getValue'' [] of Inl e \<Rightarrow> Inl e | Inr r \<Rightarrow> Inr [(''value'', r)])"

definition ex_mapSelect :: "(string \<Rightarrow> string \<Rightarrow> jsval list \<Rightarrow> err + jsval) \<Rightarrow> jsval obj \<Rightarrow> err + jsval obj option" where
  "ex_mapSelect sel props =
     (case sel ''key'' ''getValue'' [] of Inl e \<Rightarrow> Inl e | Inr v \<Rightarrow> Inr (Some [(''value'', v)]))"

section \<open>Definitions used by the statements\<close>




text \<open>
  Example programs. \<open>ex_item_calls\<close>: one \<^verbatim>\<open>withData\<close> component is mounted with
  \<^verbatim>\<open>id = 1\<close>, then receives \<^verbatim>\<open>id = 2\<close>, then \<^verbatim>\<open>id = 1\<close> again.
  \<open>ex_unmount_data_calls\<close>: listener 0 is subscribed, then a \<^verbatim>\<open>withData\<close> component
  is mounted, then \<^verbatim>\<open>setValue(5)\<close> is dispatched; with \<open>unmount_code\<close> listener 0
  causes the component to unmount when it is notified (as a parent that stops rendering
  the component does). \<open>ex_unmount_select_calls\<close> is the same with \<^verbatim>\<open>withSelect\<close>.
\<close>

definition no_code :: "nat \<Rightarrow> lcmd list" where
  "no_code n = []"


definition unmount_code :: "cref \<Rightarrow> nat \<Rightarrow> lcmd list" where
  "unmount_code c n = (if n = 0 then [LUnmount c] else [])"

definition ex_unmount_data_calls :: "(ex_state, jsval obj) op list" where
  "ex_unmount_data_calls =
     [OpRegisterStore ''key'' ex_options,
      OpSubscribe (Ext 0),
      OpMountData ex_mapData [],
      OpCallAction ''key'' ''setValue'' [JNum 5]]"

definition ex_unmount_select_calls :: "(ex_state, jsval obj) op list" where
  "ex_unmount_select_calls =
     [OpRegisterStore ''key'' ex_options,
      OpSubscribe (Ext 0),
      OpMountSelect ex_mapSelect [],
      OpCallAction ''key'' ''setValue'' [JNum 5]]"


text \<open>
  \<open>reduced sid action w\<close>: the world in the middle of \<^verbatim>\<open>store.dispatch(action)\<close>, when
  the store holds \<^verbatim>\<open>reducer(state, action)\<close> and the subscription of
  \<^verbatim>\<open>registerReducer\<close> has stored it in \<^verbatim>\<open>lastState\<close>, before anyone is notified.
\<close>

definition reduced :: "nat \<Rightarrow> 'a \<Rightarrow> ('s, 'a) world \<Rightarrow> ('s, 'a) world" where
  "reduced sid action w =
     w\<lparr>store_objs := (store_objs w)[sid := (store_objs w ! sid)
          \<lparr>st_state := reduce (st_reducer (store_objs w ! sid)) (st_state (store_objs w ! sid)) action,
           st_lastState := reduce (st_reducer (store_objs w ! sid)) (st_state (store_objs w ! sid)) action\<rparr>]\<rparr>"

text \<open>
  \<open>returned_all ls w = Some w1\<close>: the listeners \<open>ls\<close>, called one after the other from
  the world \<open>w\<close>, each in the world the one before it left and each call recorded in
  the trace, all returned, and the last left \<open>w1\<close>; \<open>None\<close> when one of them raised.
\<close>

fun returned_all :: "listener list \<Rightarrow> ('s, 'a) world \<Rightarrow> ('s, 'a) world option" where
  "returned_all [] w = Some w"
| "returned_all (l # ls) w =
     (case call_listener l (emit (EvCall l) w) of
        (Inr _, w1) \<Rightarrow> returned_all ls w1
      | (Inl e, w1) \<Rightarrow> None)"

text \<open>
  A bus of three listeners: listener 0 unsubscribes listener 2, listener 1 raises,
  listener 2 does nothing.
\<close>

definition ex_bus_code :: "nat \<Rightarrow> lcmd list" where
  "ex_bus_code n = (if n = 0 then [LUnsubscribe (Ext 2)] else if n = 1 then [LThrow 9] else [])"

definition ex_bus_world :: "(unit, unit) world" where
  "ex_bus_world = run_ops [OpSubscribe (Ext 0), OpSubscribe (Ext 1), OpSubscribe (Ext 2)] (init_world ex_bus_code)"

section \<open>What the calls leave alone\<close>

lemma calls_of_append: "calls_of (xs @ ys) = calls_of xs @ calls_of ys"
  by (induction xs rule: calls_of.induct) simp_all


lemma quiet_refl: "quiet w w"
  by (simp add: quiet_def same_regs_def)

lemma quiet_trans: "quiet w w1 \<Longrightarrow> quiet w1 w2 \<Longrightarrow> quiet w w2"
  by (simp add: quiet_def same_regs_def)

lemma quiet_emit: "e \<noteq> EvFire \<Longrightarrow> calls_of [e] = [] \<Longrightarrow> quiet w (emit e w)"
  by (simp add: quiet_def same_regs_def emit_def fires_def calls_of_append)

lemma quiet_listeners: "quiet w (w\<lparr>listeners := ls\<rparr>)"
  by (simp add: quiet_def same_regs_def fires_def)

lemma quiet_upd_select: "quiet w (upd_select c f w)"
  by (simp add: quiet_def same_regs_def upd_select_def fires_def)

lemma quiet_upd_data: "quiet w (upd_data c f w)"
  by (simp add: quiet_def same_regs_def upd_data_def fires_def)

lemma quiet_subscribe: "quiet w (snd (subscribe l w))"
  by (simp add: quiet_def same_regs_def subscribe_def fires_def)

lemma quiet_call_unsubscribe: "quiet w (call_unsubscribe u w)"
  by (cases u) (simp add: quiet_def same_regs_def fires_def)

lemma quiet_withSelect_setState: "quiet w (withSelect_setState c m w)"
  unfolding withSelect_setState_def
  by (rule quiet_trans [OF quiet_emit quiet_upd_select]) simp_all

lemma quiet_withData_setState: "quiet w (withData_setState c m w)"
  unfolding withData_setState_def
  by (rule quiet_trans [OF quiet_emit quiet_upd_data]) simp_all

lemma quiet_withSelect_runSelection: "quiet w (snd (withSelect_runSelection c p w))"
  by (simp add: withSelect_runSelection_def Let_def quiet_refl quiet_withSelect_setState
      split: sum.split option.split)

lemma quiet_withData_runSelection: "quiet w (snd (withData_runSelection c w))"
  by (simp add: withData_runSelection_def Let_def quiet_refl quiet_withData_setState
      split: sum.split option.split)

lemma quiet_withSelect_componentWillUnmount: "quiet w (snd (withSelect_componentWillUnmount c w))"
  by (auto simp: withSelect_componentWillUnmount_def quiet_refl
      intro: quiet_trans [OF quiet_listeners quiet_upd_select] split: option.split)

lemma quiet_withData_componentWillUnmount: "quiet w (snd (withData_componentWillUnmount c w))"
  by (auto simp: withData_componentWillUnmount_def quiet_refl
      intro: quiet_listeners split: option.split)

lemma quiet_unmount: "quiet w (snd (unmount c w))"
proof (cases c)
  case (SelectComp n)
  have "quiet w (emit (EvUnmount (SelectComp n)) w)" by (rule quiet_emit) simp_all
  then show ?thesis
    using SelectComp quiet_withSelect_componentWillUnmount quiet_trans by fastforce
next
  case (DataComp n)
  have "quiet w (emit (EvUnmount (DataComp n)) w)" by (rule quiet_emit) simp_all
  then show ?thesis
    using DataComp quiet_withData_componentWillUnmount quiet_trans by fastforce
qed

lemma quiet_run_cmd: "quiet w (snd (run_cmd cmd w))"
  by (cases cmd) (simp_all add: quiet_refl quiet_subscribe quiet_listeners quiet_unmount)

lemma quiet_run_script: "quiet w (snd (run_script cmds w))"
proof (induction cmds arbitrary: w)
  case Nil
  then show ?case by (simp add: quiet_refl)
next
  case (Cons cmd cmds)
  obtain r w1 where step: "run_cmd cmd w = (r, w1)" by (cases "run_cmd cmd w")
  have q1: "quiet w w1" using quiet_run_cmd [of w cmd] step by simp
  show ?case
  proof (cases r)
    case (Inl e)
    then show ?thesis using step q1 by simp
  next
    case (Inr u)
    then show ?thesis using step q1 Cons.IH [of w1] quiet_trans by fastforce
  qed
qed

lemma quiet_call_listener: "quiet w (snd (call_listener l w))"
proof (cases l)
  case (Ext n)
  then show ?thesis by (simp add: quiet_run_script)
next
  case (RunSelection c)
  then show ?thesis
    by (cases c) (simp_all add: quiet_withSelect_runSelection quiet_withData_runSelection)
qed

lemma quiet_emit_call:
  "same_regs w (emit (EvCall l) w) \<and> fires (emit (EvCall l) w) = fires w \<and>
   calls_of (trace (emit (EvCall l) w)) = calls_of (trace w) @ [l]"
  by (simp add: same_regs_def emit_def fires_def calls_of_append)

lemma forEach_listener_calls:
  "forEach_listener ls w = (r, w') \<Longrightarrow>
     same_regs w w' \<and> fires w' = fires w \<and>
     (\<exists>n\<le>length ls. calls_of (trace w') = calls_of (trace w) @ take n ls \<and>
        (case r of
           Inr _ \<Rightarrow> n = length ls
         | Inl e \<Rightarrow> 0 < n \<and> (\<exists>wk. call_listener (ls ! (n - 1)) wk = (Inl e, w'))))"
proof (induction ls arbitrary: w)
  case Nil
  then show ?case by (auto simp: same_regs_def)
next
  case (Cons l ls)
  let ?w0 = "emit (EvCall l) w"
  obtain r1 w1 where step: "call_listener l ?w0 = (r1, w1)" by (cases "call_listener l ?w0")
  have q: "quiet ?w0 w1" using quiet_call_listener [of ?w0 l] step by simp
  have regs: "same_regs w w1" and f: "fires w1 = fires w"
    and c: "calls_of (trace w1) = calls_of (trace w) @ [l]"
    using q quiet_emit_call [of w l] by (simp_all add: quiet_def same_regs_def)
  show ?case
  proof (cases r1)
    case (Inl e)
    then have "r = Inl e" "w' = w1" using Cons.prems step by simp_all
    then show ?thesis using regs f c step Inl
      by (auto intro!: exI [of _ 1] exI [of _ ?w0])
  next
    case (Inr u)
    then have rest: "forEach_listener ls w1 = (r, w')" using Cons.prems step by simp
    from Cons.IH [OF rest] obtain n where n: "n \<le> length ls"
      "calls_of (trace w') = calls_of (trace w1) @ take n ls"
      "case r of Inr _ \<Rightarrow> n = length ls
         | Inl e \<Rightarrow> 0 < n \<and> (\<exists>wk. call_listener (ls ! (n - 1)) wk = (Inl e, w'))"
      and regs': "same_regs w1 w'" and f': "fires w' = fires w1"
      by blast
    have "case r of Inr _ \<Rightarrow> Suc n = length (l # ls)
         | Inl e \<Rightarrow> 0 < Suc n \<and> (\<exists>wk. call_listener ((l # ls) ! (Suc n - 1)) wk = (Inl e, w'))"
      using n(3) by (cases r) (auto simp: nth_Cons split: nat.split)
    moreover have "calls_of (trace w') = calls_of (trace w) @ take (Suc n) (l # ls)"
      using n(2) c by simp
    moreover have "same_regs w w'" using regs regs' by (simp add: same_regs_def)
    ultimately show ?thesis using n(1) f f' by (intro conjI exI [of _ "Suc n"]) simp_all
  qed
qed

lemma fires_emit_fire: "fires (emit EvFire w) = Suc (fires w)"
  by (simp add: fires_def emit_def)

lemma globalListener_fires:
  assumes "globalListener w = (r, w')"
  shows "same_regs w w' \<and> fires w' = Suc (fires w)"
proof -
  have "forEach_listener (listeners w) (emit EvFire w) = (r, w')"
    using assms by (simp add: globalListener_def)
  from forEach_listener_calls [OF this]
  have "same_regs (emit EvFire w) w'" "fires w' = fires (emit EvFire w)" by simp_all
  then show ?thesis by (simp add: fires_emit_fire) (simp add: same_regs_def emit_def)
qed

lemma store_listener_effect:
  assumes "store_listener sid w = (r, w')" "sid < length (store_objs w)"
  shows "store_objs w' = (store_objs w)[sid := (store_objs w ! sid)\<lparr>st_lastState := st_state (store_objs w ! sid)\<rparr>]
         \<and> stores w' = stores w \<and> selectors w' = selectors w \<and> actions w' = actions w \<and> ext_code w' = ext_code w
         \<and> fires w' = fires w + (if st_state (store_objs w ! sid) \<noteq> st_lastState (store_objs w ! sid) then 1 else 0)"
proof (cases "st_state (store_objs w ! sid) \<noteq> st_lastState (store_objs w ! sid)")
  case True
  let ?w1 = "w\<lparr>store_objs := (store_objs w)[sid := (store_objs w ! sid)\<lparr>st_lastState := st_state (store_objs w ! sid)\<rparr>]\<rparr>"
  have "globalListener ?w1 = (r, w')"
    using assms(1) True by (simp add: store_listener_def Let_def)
  from globalListener_fires [OF this] show ?thesis
    using True by (simp add: same_regs_def fires_def)
next
  case False
  then show ?thesis using assms(1) by (auto simp: store_listener_def Let_def fires_def)
qed

lemma store_dispatch_effect:
  assumes "store_dispatch sid a w = (r, w')" "sid < length (store_objs w)"
  shows "store_objs w' = (store_objs w)[sid := (store_objs w ! sid)
            \<lparr>st_state := reduce (st_reducer (store_objs w ! sid)) (st_state (store_objs w ! sid)) a,
             st_lastState := reduce (st_reducer (store_objs w ! sid)) (st_state (store_objs w ! sid)) a\<rparr>]
         \<and> stores w' = stores w \<and> selectors w' = selectors w \<and> actions w' = actions w \<and> ext_code w' = ext_code w
         \<and> fires w' = fires w +
             (if reduce (st_reducer (store_objs w ! sid)) (st_state (store_objs w ! sid)) a
                 \<noteq> st_lastState (store_objs w ! sid) then 1 else 0)"
proof -
  let ?st = "store_objs w ! sid"
  let ?w1 = "w\<lparr>store_objs := (store_objs w)[sid := ?st\<lparr>st_state := reduce (st_reducer ?st) (st_state ?st) a\<rparr>]\<rparr>"
  obtain r1 where sl: "store_listener sid ?w1 = (r1, w')"
    using assms by (cases "store_listener sid ?w1") (auto simp: store_dispatch_def Let_def split: sum.splits)
  have len: "sid < length (store_objs ?w1)" using assms(2) by simp
  from store_listener_effect [OF sl len] show ?thesis
    using assms(2) by (simp add: fires_def)
qed

lemma quiet_withData_runSideEffects: "quiet w (snd (withData_runSideEffects rs w))"
proof (induction rs arbitrary: w)
  case Nil
  then show ?case by (simp add: quiet_refl)
next
  case (Cons x rs)
  obtain k r where x: "x = (k, r)" by (cases x)
  have e: "\<And>f. quiet w (emit (EvEffect f (rs_args r)) w)" by (rule quiet_emit) simp_all
  show ?case
    using Cons.IH e unfolding x
    by (auto simp: quiet_refl split: sum.split option.split intro: quiet_trans)
qed

lemma quiet_withData_runResolvers: "quiet w (snd (withData_runResolvers c p w))"
proof -
  have step: "quiet w1 (snd (case withData_runSideEffects new w1 of
                   (Inl e, w2) \<Rightarrow> (Inl e, w2)
                 | (Inr _, w2) \<Rightarrow> withData_runSelection c w2))" for new and w1 :: "('a, 'b) world"
    using quiet_withData_runSideEffects [of w1 new]
    by (cases "withData_runSideEffects new w1")
       (auto split: sum.split intro: quiet_trans [OF _ quiet_withData_runSelection])
  show ?thesis
    unfolding withData_runResolvers_def Let_def
    by (auto simp: quiet_refl split: sum.split
             intro!: quiet_trans [OF quiet_upd_data step])
qed

lemma quiet_append_comps:
  "quiet w (w\<lparr>select_comps := xs\<rparr>)" "quiet w (w\<lparr>data_comps := ys\<rparr>)"
  by (simp_all add: quiet_def same_regs_def fires_def)

lemma quiet_mount_select: "quiet w (snd (mount_select m p w))"
proof -
  let ?w1 = "w\<lparr>select_comps := select_comps w @ [\<lparr>sc_mapStateToProps = m, sc_props = p, sc_mergeProps = None,
                  sc_isUnmounting = False, sc_unsubscribe = None\<rparr>]\<rparr>"
  let ?c = "length (select_comps w)"
  have "quiet ?w1 (withSelect_subscribe ?c ?w1)"
    unfolding withSelect_subscribe_def subscribe_def
    by (simp add: quiet_trans [OF quiet_listeners quiet_upd_select])
  then have "quiet ?w1 (snd (withSelect_componentWillMount ?c ?w1))"
    unfolding withSelect_componentWillMount_def
    using quiet_withSelect_runSelection quiet_trans by blast
  then have "quiet w (snd (withSelect_componentWillMount ?c ?w1))"
    using quiet_append_comps(1) quiet_trans by blast
  then show ?thesis
    by (auto simp: mount_select_def Let_def split: prod.split sum.split)
qed

lemma quiet_mount_data: "quiet w (snd (mount_data m p w))"
proof -
  let ?w1 = "w\<lparr>data_comps := data_comps w @ [\<lparr>dc_mapStateToProps = m, dc_props = p, dc_state = [],
                  dc_resolvers = [], dc_unsubscribe = None\<rparr>]\<rparr>"
  let ?c = "length (data_comps w)"
  have "quiet ?w1 (withData_subscribe ?c ?w1)"
    unfolding withData_subscribe_def subscribe_def
    by (simp add: quiet_trans [OF quiet_listeners quiet_upd_data])
  then have "quiet ?w1 (snd (withData_componentWillMount ?c ?w1))"
    unfolding withData_componentWillMount_def
    using quiet_withData_runResolvers quiet_trans by blast
  then have "quiet w (snd (withData_componentWillMount ?c ?w1))"
    using quiet_append_comps(2) quiet_trans by blast
  then show ?thesis
    by (auto simp: mount_data_def Let_def split: prod.split sum.split)
qed

lemma quiet_receive_props_select: "quiet w (snd (receive_props_select c p w))"
proof -
  have "quiet w (snd (withSelect_componentWillReceiveProps c p w))"
    by (simp add: withSelect_componentWillReceiveProps_def quiet_refl quiet_withSelect_runSelection)
  then show ?thesis
    unfolding receive_props_select_def
    by (auto split: prod.split sum.split intro: quiet_trans [OF _ quiet_upd_select])
qed

lemma quiet_receive_props_data: "quiet w (snd (receive_props_data c p w))"
proof -
  have "quiet w (snd (withData_componentWillReceiveProps c p w))"
    by (simp add: withData_componentWillReceiveProps_def quiet_refl quiet_withData_runResolvers)
  then show ?thesis
    unfolding receive_props_data_def
    by (auto split: prod.split sum.split intro: quiet_trans [OF _ quiet_upd_data])
qed

lemma store_objs_registerReducer:
  "store_objs (snd (registerReducer k r w)) = store_objs w @ [createStore r]"
  by (simp add: registerReducer_def Let_def)

lemma store_objs_registerSelectors: "store_objs (registerSelectors k ss w) = store_objs w"
  by (simp add: registerSelectors_def Let_def)

lemma store_objs_registerActions: "store_objs (registerActions k as w) = store_objs w"
  by (simp add: registerActions_def Let_def)

lemma store_objs_registerStore:
  "store_objs (snd (registerStore k opts w)) =
     store_objs w @ (case opt_reducer opts of None \<Rightarrow> [] | Some r \<Rightarrow> [createStore r])"
  by (simp add: registerStore_def registerReducer_def Let_def store_objs_registerSelectors
      store_objs_registerActions split: option.split)

lemma store_ok_append: "store_ok sid w \<Longrightarrow> store_objs w' = store_objs w @ xs \<Longrightarrow> store_ok sid w'"
  by (simp add: store_ok_def nth_append)

lemma store_ok_quiet: "store_ok sid w \<Longrightarrow> quiet w w' \<Longrightarrow> store_ok sid w'"
  by (simp add: store_ok_def quiet_def same_regs_def)

lemma store_ok_store_dispatch:
  assumes "store_ok sid w"
  shows "store_ok sid (snd (store_dispatch sid' a w))"
proof (cases "sid' < length (store_objs w)")
  case True
  obtain r w' where d: "store_dispatch sid' a w = (r, w')" by (cases "store_dispatch sid' a w")
  from store_dispatch_effect [OF d True] show ?thesis
    using assms d True by (auto simp: store_ok_def nth_list_update)
next
  case False
  then show ?thesis using assms by (simp add: store_dispatch_def)
qed

lemma store_ok_run_op: "store_ok sid w \<Longrightarrow> store_ok sid (run_op x w)"
proof (induction x w rule: run_op.induct)
  case (1 reducerKey options w)
  then show ?case using store_ok_append [OF _ store_objs_registerStore] by simp
next
  case (2 reducerKey r w)
  then show ?case using store_ok_append [OF _ store_objs_registerReducer] by simp
next
  case (3 reducerKey newSelectors w)
  then show ?case by (simp add: store_ok_def store_objs_registerSelectors)
next
  case (4 reducerKey newActions w)
  then show ?case by (simp add: store_ok_def store_objs_registerActions)
next
  case (5 l w)
  then show ?case using store_ok_quiet [OF _ quiet_subscribe] by simp
next
  case (6 l w)
  then show ?case using store_ok_quiet [OF _ quiet_listeners] by simp
next
  case (7 w)
  obtain r w' where g: "globalListener w = (r, w')" by (cases "globalListener w")
  from globalListener_fires [OF g] show ?case using 7 g by (simp add: store_ok_def same_regs_def)
next
  case (8 sid' action w)
  then show ?case by (simp add: store_ok_store_dispatch)
next
  case (9 reducerKey name args w)
  then show ?case
    by (auto simp: call_action_def store_ok_store_dispatch split: option.split lookup.split)
next
  case (10 m props w)
  then show ?case using store_ok_quiet [OF _ quiet_mount_select] by simp
next
  case (11 m props w)
  then show ?case using store_ok_quiet [OF _ quiet_mount_data] by simp
next
  case (12 c nextProps w)
  then show ?case using store_ok_quiet [OF _ quiet_receive_props_select] by simp
next
  case (13 c nextProps w)
  then show ?case using store_ok_quiet [OF _ quiet_receive_props_data] by simp
next
  case (14 c w)
  then show ?case using store_ok_quiet [OF _ quiet_unmount] by simp
qed

lemma store_ok_run_ops: "store_ok sid w \<Longrightarrow> store_ok sid (run_ops xs w)"
  by (induction xs arbitrary: w) (simp_all add: store_ok_run_op)

lemma store_ok_registerReducer: "registerReducer k r w0 = (sid, w1) \<Longrightarrow> store_ok sid w1"
  by (auto simp: registerReducer_def Let_def store_ok_def createStore_def)

lemma store_dispatch_regs:
  "stores (snd (store_dispatch sid a w)) = stores w \<and>
   selectors (snd (store_dispatch sid a w)) = selectors w \<and>
   actions (snd (store_dispatch sid a w)) = actions w \<and>
   ext_code (snd (store_dispatch sid a w)) = ext_code w \<and>
   length (store_objs (snd (store_dispatch sid a w))) = length (store_objs w)"
proof (cases "sid < length (store_objs w)")
  case True
  obtain r w' where d: "store_dispatch sid a w = (r, w')" by (cases "store_dispatch sid a w")
  from store_dispatch_effect [OF d True] show ?thesis using d by simp
next
  case False
  then show ?thesis by (simp add: store_dispatch_def)
qed

lemma getProp_mapValues: "getProp (mapValues f ob) k = map_option (\<lambda>v. f v k) (getProp ob k)"
  by (induction ob) (auto simp: getProp_def mapValues_def)

lemma keys_mapValues: "keys (mapValues f ob) = keys ob"
  by (induction ob) (auto simp: keys_def mapValues_def)

lemma selectors_quiet: "quiet w w' \<Longrightarrow> selectors w' = selectors w \<and> actions w' = actions w"
  by (simp add: quiet_def same_regs_def)

lemma selectors_run_op:
  "\<not> registers_selectors k x \<Longrightarrow> selectors (run_op x w) k = selectors w k"
proof (induction x w rule: run_op.induct)
  case (1 reducerKey options w)
  then show ?case
    by (auto simp: registerStore_def registerReducer_def registerActions_def registerSelectors_def
        Let_def split: option.split)
next
  case (7 w)
  obtain r w' where g: "globalListener w = (r, w')" by (cases "globalListener w")
  from globalListener_fires [OF g] show ?case using g by (simp add: same_regs_def)
next
  case (9 reducerKey name args w)
  then show ?case by (auto simp: call_action_def store_dispatch_regs split: option.split lookup.split)
qed (simp_all add: registerReducer_def registerSelectors_def registerActions_def Let_def subscribe_def
      store_dispatch_regs selectors_quiet [OF quiet_mount_select] selectors_quiet [OF quiet_mount_data]
      selectors_quiet [OF quiet_receive_props_select] selectors_quiet [OF quiet_receive_props_data]
      selectors_quiet [OF quiet_unmount])

lemma actions_run_op:
  "\<not> registers_actions k x \<Longrightarrow> actions (run_op x w) k = actions w k"
proof (induction x w rule: run_op.induct)
  case (1 reducerKey options w)
  then show ?case
    by (auto simp: registerStore_def registerReducer_def registerActions_def registerSelectors_def
        Let_def split: option.split)
next
  case (7 w)
  obtain r w' where g: "globalListener w = (r, w')" by (cases "globalListener w")
  from globalListener_fires [OF g] show ?case using g by (simp add: same_regs_def)
next
  case (9 reducerKey name args w)
  then show ?case by (auto simp: call_action_def store_dispatch_regs split: option.split lookup.split)
qed (simp_all add: registerReducer_def registerSelectors_def registerActions_def Let_def subscribe_def
      store_dispatch_regs selectors_quiet [OF quiet_mount_select] selectors_quiet [OF quiet_mount_data]
      selectors_quiet [OF quiet_receive_props_select] selectors_quiet [OF quiet_receive_props_data]
      selectors_quiet [OF quiet_unmount])

lemma selectors_run_ops:
  "list_all (\<lambda>x. \<not> registers_selectors k x) xs \<Longrightarrow> selectors (run_ops xs w) k = selectors w k"
  by (induction xs arbitrary: w) (simp_all add: selectors_run_op)

lemma actions_run_ops:
  "list_all (\<lambda>x. \<not> registers_actions k x) xs \<Longrightarrow> actions (run_ops xs w) k = actions w k"
  by (induction xs arbitrary: w) (simp_all add: actions_run_op)


















lemmas model_defs =
  init_world_def no_code_def unmount_code_def
  ex_options_def ex_item_options_def ex_mapItem_def ex_mapData_def ex_mapSelect_def
  ex_getValue_def ex_setValue_def ex_reducer_def
  registerStore_def registerReducer_def registerActions_def registerSelectors_def
  mapValues_def createStore_def Let_def dispatch_def select_def select_call_def call_action_def
  store_dispatch_def store_listener_def globalListener_def
  mount_data_def withData_componentWillMount_def withData_subscribe_def subscribe_def upd_data_def
  withData_runResolvers_def withData_resolve_def resolve_call_def hasOwnProperty_def keys_def
  newResolvers_def omitBy_def getProp_def lookup_selector_def emit_def withData_runSelection_def
  call_select_def isShallowEqual_def withData_setState_def assign_def setProp_def
  receive_props_data_def withData_componentWillReceiveProps_def isShallowEqualArr_def
  withData_componentWillUnmount_def without_def
  mount_select_def withSelect_componentWillMount_def withSelect_subscribe_def upd_select_def
  withSelect_runSelection_def withSelect_setState_def withSelect_componentWillUnmount_def

lemma forEach_listener_returned:
  "returned_all ls w = Some w1 \<Longrightarrow> forEach_listener ls w = (Inr (), w1)"
proof (induction ls arbitrary: w)
  case Nil
  then show ?case by simp
next
  case (Cons l ls)
  then show ?case
    by (cases "call_listener l (emit (EvCall l) w)") (auto split: sum.splits)
qed

lemma forEach_listener_raised:
  "returned_all pre w = Some w1 \<Longrightarrow> call_listener l (emit (EvCall l) w1) = (Inl e, w2) \<Longrightarrow>
     forEach_listener (pre @ l # post) w = (Inl e, w2)"
proof (induction pre arbitrary: w)
  case Nil
  then show ?case by simp
next
  case (Cons x pre)
  then show ?case
    by (cases "call_listener x (emit (EvCall x) w)") (auto split: sum.splits)
qed

lemma forEach_listener_cases:
  "forEach_listener ls w = (r, w') \<Longrightarrow>
     (case r of
        Inr _ \<Rightarrow> returned_all ls w = Some w'
      | Inl e \<Rightarrow> \<exists>pre l post w1. ls = pre @ l # post \<and> returned_all pre w = Some w1 \<and>
                  call_listener l (emit (EvCall l) w1) = (Inl e, w'))"
proof (induction ls arbitrary: w)
  case Nil
  then show ?case by auto
next
  case (Cons x ls)
  obtain r1 w1 where step: "call_listener x (emit (EvCall x) w) = (r1, w1)"
    by (cases "call_listener x (emit (EvCall x) w)")
  show ?case
  proof (cases r1)
    case (Inl e)
    then have r: "r = Inl e" and w': "w' = w1" using Cons.prems step by simp_all
    have "\<exists>pre l post w2. x # ls = pre @ l # post \<and> returned_all pre w = Some w2 \<and>
            call_listener l (emit (EvCall l) w2) = (Inl e, w')"
      using step Inl w'
      by (intro exI [of _ "[]"] exI [of _ x] exI [of _ ls] exI [of _ w]) simp
    then show ?thesis unfolding r by simp
  next
    case (Inr u)
    then have rest: "forEach_listener ls w1 = (r, w')" using Cons.prems step by simp
    have first: "returned_all (x # pre) w = returned_all pre w1" for pre
      using step Inr by simp
    show ?thesis
    proof (cases r)
      case (Inr v)
      then have "returned_all ls w1 = Some w'" using Cons.IH [OF rest] by simp
      then show ?thesis unfolding Inr using first by simp
    next
      case (Inl e)
      then obtain pre l post w2 where d: "ls = pre @ l # post" "returned_all pre w1 = Some w2"
          "call_listener l (emit (EvCall l) w2) = (Inl e, w')"
        using Cons.IH [OF rest] by auto
      have "\<exists>pre' l' post' w2'. x # ls = pre' @ l' # post' \<and> returned_all pre' w = Some w2' \<and>
            call_listener l' (emit (EvCall l') w2') = (Inl e, w')"
        using d first [of pre]
        by (intro exI [of _ "x # pre"] exI [of _ l] exI [of _ post] exI [of _ w2]) simp
      then show ?thesis unfolding Inl by simp
    qed
  qed
qed

lemma returned_all_calls:
  assumes "returned_all ls w = Some w1"
  shows "calls_of (trace w1) = calls_of (trace w) @ ls"
proof -
  from forEach_listener_calls [OF forEach_listener_returned [OF assms]]
  show ?thesis by auto
qed

lemma store_dispatch_calls:
  assumes "store_dispatch sid a w = (r, w')" "sid < length (store_objs w)"
  shows "if reduce (st_reducer (store_objs w ! sid)) (st_state (store_objs w ! sid)) a
              \<noteq> st_lastState (store_objs w ! sid)
         then \<exists>n\<le>length (listeners w).
                calls_of (trace w') = calls_of (trace w) @ take n (listeners w) \<and>
                (case r of Inr _ \<Rightarrow> n = length (listeners w) | Inl e \<Rightarrow> 0 < n)
         else calls_of (trace w') = calls_of (trace w) \<and> r = Inr a"
proof -
  let ?st = "store_objs w ! sid"
  let ?s = "reduce (st_reducer ?st) (st_state ?st) a"
  let ?w1 = "w\<lparr>store_objs := (store_objs w)[sid := ?st\<lparr>st_state := ?s, st_lastState := ?s\<rparr>]\<rparr>"
  show ?thesis
  proof (cases "?s \<noteq> st_lastState ?st")
    case True
    obtain r1 where g: "globalListener ?w1 = (r1, w')"
      and r: "r = (case r1 of Inl e \<Rightarrow> Inl e | Inr _ \<Rightarrow> Inr a)"
      using assms True
      by (cases "globalListener ?w1")
         (auto simp: store_dispatch_def store_listener_def Let_def split: sum.splits)
    have "forEach_listener (listeners w) (emit EvFire ?w1) = (r1, w')"
      using g by (simp add: globalListener_def)
    from forEach_listener_calls [OF this]
    obtain n where n: "n \<le> length (listeners w)"
      "calls_of (trace w') = calls_of (trace (emit EvFire ?w1)) @ take n (listeners w)"
      and c: "case r1 of Inr _ \<Rightarrow> n = length (listeners w)
               | Inl e \<Rightarrow> 0 < n \<and> (\<exists>wk. call_listener (listeners w ! (n - 1)) wk = (Inl e, w'))"
      by blast
    have n3: "case r1 of Inr _ \<Rightarrow> n = length (listeners w) | Inl e \<Rightarrow> 0 < n"
      using c by (cases r1) auto
    have "case r of Inr _ \<Rightarrow> n = length (listeners w) | Inl e \<Rightarrow> 0 < n"
      using n3 r by (cases r1) simp_all
    moreover have "calls_of (trace w') = calls_of (trace w) @ take n (listeners w)"
      using n(2) by (simp add: emit_def calls_of_append)
    ultimately show ?thesis using True n(1) by auto
  next
    case False
    then show ?thesis using assms
      by (auto simp: store_dispatch_def store_listener_def Let_def)
  qed
qed



lemma store_dispatch_cases:
  assumes "store_dispatch sid a w = (r, w')" "sid < length (store_objs w)"
  shows "if reduce (st_reducer (store_objs w ! sid)) (st_state (store_objs w ! sid)) a
              \<noteq> st_lastState (store_objs w ! sid)
         then (case r of
                 Inr _ \<Rightarrow> returned_all (listeners w) (emit EvFire (reduced sid a w)) = Some w'
               | Inl e \<Rightarrow> \<exists>pre l post w2. listeners w = pre @ l # post \<and>
                    returned_all pre (emit EvFire (reduced sid a w)) = Some w2 \<and>
                    call_listener l (emit (EvCall l) w2) = (Inl e, w'))
         else w' = reduced sid a w"
proof (cases "reduce (st_reducer (store_objs w ! sid)) (st_state (store_objs w ! sid)) a
              \<noteq> st_lastState (store_objs w ! sid)")
  case True
  obtain r1 where g: "globalListener (reduced sid a w) = (r1, w')"
    and r: "r = (case r1 of Inl e \<Rightarrow> Inl e | Inr _ \<Rightarrow> Inr a)"
    using assms True
    by (cases "globalListener (reduced sid a w)")
       (auto simp: store_dispatch_def store_listener_def Let_def reduced_def split: sum.splits)
  have fe: "forEach_listener (listeners w) (emit EvFire (reduced sid a w)) = (r1, w')"
    using g by (simp add: globalListener_def reduced_def)
  from forEach_listener_cases [OF fe] show ?thesis
    using True r by (cases r1) simp_all
next
  case False
  then show ?thesis using assms
    by (auto simp: store_dispatch_def store_listener_def Let_def reduced_def)
qed

section \<open>The global listener bus fires once per state change\<close>

text \<open>
  C1. For a store registered with \<^verbatim>\<open>registerReducer\<close> and any sequence of calls into
  the module after that (dispatches to this or another store among them), consider the
  next dispatch to the store. If the state after it is \<^verbatim>\<open>===\<close> to the state before
  it, \<^verbatim>\<open>globalListener\<close> is not called, no listener is invoked and the dispatch
  returns the action, leaving only the store changed. If the state differs,
  \<^verbatim>\<open>globalListener\<close> is called exactly once and the listeners on the bus are invoked
  once each, in the order of the bus, each in the world the one before it left: all of
  them when the dispatch returns, and those up to the one that raised when it raises.
\<close>

theorem globalListener_once_per_state_change:
  assumes "registerReducer reducerKey r w0 = (sid, w1)"
    and "w = run_ops ops w1"
    and "store_dispatch sid action w = (res, w')"
  shows "(getState sid w' = getState sid w \<longrightarrow>
            fires w' = fires w \<and> calls_of (trace w') = calls_of (trace w) \<and> res = Inr action \<and>
            w' = reduced sid action w) \<and>
         (getState sid w' \<noteq> getState sid w \<longrightarrow>
            fires w' = fires w + 1 \<and>
            (\<exists>n\<le>length (listeners w).
               calls_of (trace w') = calls_of (trace w) @ take n (listeners w) \<and>
               (case res of Inr _ \<Rightarrow> n = length (listeners w) | Inl e \<Rightarrow> 0 < n)) \<and>
            (case res of
               Inr _ \<Rightarrow> returned_all (listeners w) (emit EvFire (reduced sid action w)) = Some w'
             | Inl e \<Rightarrow> \<exists>pre l post w2. listeners w = pre @ l # post \<and>
                  returned_all pre (emit EvFire (reduced sid action w)) = Some w2 \<and>
                  call_listener l (emit (EvCall l) w2) = (Inl e, w')))"
proof -
  have ok: "store_ok sid w"
    using store_ok_run_ops [OF store_ok_registerReducer [OF assms(1)]] assms(2) by simp
  then have len: "sid < length (store_objs w)"
    and last: "st_lastState (store_objs w ! sid) = st_state (store_objs w ! sid)"
    by (simp_all add: store_ok_def)
  have st: "getState sid w' = reduce (st_reducer (store_objs w ! sid)) (st_state (store_objs w ! sid)) action"
    and f: "fires w' = fires w +
             (if reduce (st_reducer (store_objs w ! sid)) (st_state (store_objs w ! sid)) action
                 \<noteq> st_lastState (store_objs w ! sid) then 1 else 0)"
    using store_dispatch_effect [OF assms(3) len] len by (simp_all add: getState_def)
  show ?thesis
    using store_dispatch_calls [OF assms(3) len] store_dispatch_cases [OF assms(3) len] st f last
    by (simp add: getState_def split: if_splits)
qed

theorem globalListener_once_per_state_change_witness:
  "fires (snd (store_dispatch 0 (ex_setValue [JNum 5])
            (run_ops [OpSubscribe (Ext 0)] (snd (registerReducer ''key'' ex_reducer (init_world no_code)))))) = 1 \<and>
   calls_of (trace (snd (store_dispatch 0 (ex_setValue [JNum 5])
            (run_ops [OpSubscribe (Ext 0)] (snd (registerReducer ''key'' ex_reducer (init_world no_code))))))) = [Ext 0]"
proof -
  let ?w1 = "snd (registerReducer ''key'' ex_reducer (init_world no_code))"
  let ?w = "run_ops [OpSubscribe (Ext 0)] ?w1"
  have a: "registerReducer ''key'' ex_reducer (init_world no_code) = (0, ?w1)"
    by (simp add: registerReducer_def init_world_def Let_def)
  have c: "store_dispatch 0 (ex_setValue [JNum 5]) ?w
             = (fst (store_dispatch 0 (ex_setValue [JNum 5]) ?w), snd (store_dispatch 0 (ex_setValue [JNum 5]) ?w))"
    by simp
  from globalListener_once_per_state_change [OF a refl c]
  show ?thesis
    by (simp add: registerReducer_def init_world_def no_code_def Let_def subscribe_def fires_def getState_def
      store_dispatch_def store_listener_def createStore_def ex_reducer_def ex_setValue_def getProp_def
      globalListener_def emit_def)
qed

section \<open>Subscribing and unsubscribing\<close>

text \<open>
  C5. After \<^verbatim>\<open>subscribe(listener)\<close> and a call of the closure it returned, the
  listener is not on the bus. The closure removes the occurrences of that listener and
  nothing else, whatever the bus holds when it is called, so a second call changes
  nothing and removes no other listener; it has no raising branch.
\<close>

theorem subscribe_unsubscribe_removes_listener:
  "subscribe l w = (u, w1) \<Longrightarrow>
     l \<notin> set (listeners (call_unsubscribe u w1)) \<and>
     (\<forall>w'. call_unsubscribe u w' = w'\<lparr>listeners := filter (\<lambda>x. x \<noteq> l) (listeners w')\<rparr>) \<and>
     call_unsubscribe u (call_unsubscribe u w1) = call_unsubscribe u w1"
  by (auto simp: subscribe_def without_def)

theorem subscribe_unsubscribe_removes_listener_witness:
  "Ext 0 \<notin> set (listeners (call_unsubscribe (fst (subscribe (Ext 0) ((init_world (\<lambda>_. []) :: (unit, unit) world)\<lparr>listeners := [Ext 1, Ext 0, Ext 2]\<rparr>)))
       (snd (subscribe (Ext 0) ((init_world (\<lambda>_. []) :: (unit, unit) world)\<lparr>listeners := [Ext 1, Ext 0, Ext 2]\<rparr>))))) \<and>
   listeners (call_unsubscribe (fst (subscribe (Ext 0) ((init_world (\<lambda>_. []) :: (unit, unit) world)\<lparr>listeners := [Ext 1, Ext 0, Ext 2]\<rparr>)))
       (snd (subscribe (Ext 0) ((init_world (\<lambda>_. []) :: (unit, unit) world)\<lparr>listeners := [Ext 1, Ext 0, Ext 2]\<rparr>)))) = [Ext 1, Ext 2]"
  using subscribe_unsubscribe_removes_listener
    [of "Ext 0" "(init_world (\<lambda>_. []) :: (unit, unit) world)\<lparr>listeners := [Ext 1, Ext 0, Ext 2]\<rparr>"
        "fst (subscribe (Ext 0) ((init_world (\<lambda>_. []) :: (unit, unit) world)\<lparr>listeners := [Ext 1, Ext 0, Ext 2]\<rparr>))"
        "snd (subscribe (Ext 0) ((init_world (\<lambda>_. []) :: (unit, unit) world)\<lparr>listeners := [Ext 1, Ext 0, Ext 2]\<rparr>))"]
  by (simp add: subscribe_def init_world_def without_def)

section \<open>Notification order and exceptions\<close>

text \<open>
  C7. \<^verbatim>\<open>globalListener()\<close> invokes the listeners that were on the bus when it was
  called, in the order of the bus (the order of registration), each in the world the one
  before it left, whatever the listeners do to the bus meanwhile. If they all return,
  all of them were invoked and \<^verbatim>\<open>globalListener\<close> returns. If the listeners before
  \<open>l\<close> return and \<open>l\<close> raises, then \<^verbatim>\<open>globalListener\<close> raises the same exception in
  the world \<open>l\<close> left, the listeners after \<open>l\<close> are not invoked, and the dispatch whose
  change of state caused the notification (and the bound action that made it) raises
  that exception too. Every call of \<^verbatim>\<open>globalListener\<close> is one of these two cases.
\<close>

theorem globalListener_no_error_isolation:
  "(returned_all (listeners w) (emit EvFire w) = Some w1 \<longrightarrow>
      globalListener w = (Inr (), w1) \<and> calls_of (trace w1) = calls_of (trace w) @ listeners w) \<and>
   (listeners w = pre @ l # post \<and> returned_all pre (emit EvFire w) = Some w2 \<and>
    call_listener l (emit (EvCall l) w2) = (Inl e, w3) \<longrightarrow>
      globalListener w = (Inl e, w3) \<and> calls_of (trace w3) = calls_of (trace w) @ pre @ [l] \<and>
      (\<forall>w0 sid action.
         sid < length (store_objs w0) \<and>
         reduce (st_reducer (store_objs w0 ! sid)) (st_state (store_objs w0 ! sid)) action
           \<noteq> st_lastState (store_objs w0 ! sid) \<and>
         w = reduced sid action w0
         \<longrightarrow> store_dispatch sid action w0 = (Inl e, w3) \<and>
             (\<forall>ba args. ba_store ba = Some sid \<and> ba_action ba args = action \<longrightarrow>
                call_action ba args w0 = (Inl e, w3)))) \<and>
   (globalListener w = (r, w') \<longrightarrow>
      (case r of
         Inr _ \<Rightarrow> returned_all (listeners w) (emit EvFire w) = Some w'
       | Inl e' \<Rightarrow> \<exists>pre' l' post' w2'. listeners w = pre' @ l' # post' \<and>
                    returned_all pre' (emit EvFire w) = Some w2' \<and>
                    call_listener l' (emit (EvCall l') w2') = (Inl e', w')))"
proof (intro conjI impI)
  assume a: "returned_all (listeners w) (emit EvFire w) = Some w1"
  show "globalListener w = (Inr (), w1)"
    using forEach_listener_returned [OF a] by (simp add: globalListener_def)
  show "calls_of (trace w1) = calls_of (trace w) @ listeners w"
    using returned_all_calls [OF a] by (simp add: emit_def calls_of_append)
next
  assume a: "listeners w = pre @ l # post \<and> returned_all pre (emit EvFire w) = Some w2 \<and>
    call_listener l (emit (EvCall l) w2) = (Inl e, w3)"
  then have ls: "listeners w = pre @ l # post" and pre: "returned_all pre (emit EvFire w) = Some w2"
    and l: "call_listener l (emit (EvCall l) w2) = (Inl e, w3)" by simp_all
  show g: "globalListener w = (Inl e, w3)"
    using forEach_listener_raised [OF pre l, of post] ls by (simp add: globalListener_def)
  have "calls_of (trace w3) = calls_of (trace (emit (EvCall l) w2))"
    using quiet_call_listener [of "emit (EvCall l) w2" l] l by (simp add: quiet_def)
  then show "calls_of (trace w3) = calls_of (trace w) @ pre @ [l]"
    using returned_all_calls [OF pre] by (simp add: emit_def calls_of_append)
  show "\<forall>w0 sid action.
         sid < length (store_objs w0) \<and>
         reduce (st_reducer (store_objs w0 ! sid)) (st_state (store_objs w0 ! sid)) action
           \<noteq> st_lastState (store_objs w0 ! sid) \<and>
         w = reduced sid action w0
         \<longrightarrow> store_dispatch sid action w0 = (Inl e, w3) \<and>
             (\<forall>ba args. ba_store ba = Some sid \<and> ba_action ba args = action \<longrightarrow>
                call_action ba args w0 = (Inl e, w3))"
  proof (intro allI impI)
    fix w0 :: "('a, 'b) world" and sid action
    let ?st = "store_objs w0 ! sid"
    let ?s = "reduce (st_reducer ?st) (st_state ?st) action"
    assume h: "sid < length (store_objs w0) \<and> ?s \<noteq> st_lastState ?st \<and> w = reduced sid action w0"
    then have d: "store_dispatch sid action w0 = (Inl e, w3)"
      using g by (simp add: store_dispatch_def store_listener_def Let_def reduced_def)
    then show "store_dispatch sid action w0 = (Inl e, w3) \<and>
             (\<forall>ba args. ba_store ba = Some sid \<and> ba_action ba args = action \<longrightarrow>
                call_action ba args w0 = (Inl e, w3))"
      by (auto simp: call_action_def)
  qed
next
  assume "globalListener w = (r, w')"
  then have "forEach_listener (listeners w) (emit EvFire w) = (r, w')"
    by (simp add: globalListener_def)
  from forEach_listener_cases [OF this]
  show "case r of
         Inr _ \<Rightarrow> returned_all (listeners w) (emit EvFire w) = Some w'
       | Inl e' \<Rightarrow> \<exists>pre' l' post' w2'. listeners w = pre' @ l' # post' \<and>
                    returned_all pre' (emit EvFire w) = Some w2' \<and>
                    call_listener l' (emit (EvCall l') w2') = (Inl e', w')" .
qed

theorem globalListener_no_error_isolation_witness:
  "fst (globalListener ex_bus_world) = Inl (Thrown 9) \<and>
   calls_of (trace (snd (globalListener ex_bus_world))) = [Ext 0, Ext 1] \<and>
   listeners ex_bus_world = [Ext 0, Ext 1, Ext 2]"
proof -
  let ?w2 = "snd (call_listener (Ext 0) (emit (EvCall (Ext 0)) (emit EvFire ex_bus_world)))"
  let ?w3 = "snd (call_listener (Ext 1) (emit (EvCall (Ext 1)) ?w2))"
  have h: "listeners ex_bus_world = [Ext 0] @ Ext 1 # [Ext 2] \<and>
           returned_all [Ext 0] (emit EvFire ex_bus_world) = Some ?w2 \<and>
           call_listener (Ext 1) (emit (EvCall (Ext 1)) ?w2) = (Inl (Thrown 9), ?w3)"
    by (simp add: ex_bus_world_def ex_bus_code_def init_world_def subscribe_def emit_def without_def)
  from globalListener_no_error_isolation [THEN conjunct2, THEN conjunct1, rule_format, OF h]
  show ?thesis
    by (simp add: ex_bus_world_def ex_bus_code_def init_world_def subscribe_def emit_def without_def)
qed

section \<open>Registering a store\<close>

text \<open>
  C8. \<^verbatim>\<open>registerStore(reducerKey, options)\<close> raises exactly when \<^verbatim>\<open>options.reducer\<close>
  is missing; what it raises is a TypeError, and it raises before anything is
  registered: the world is the one it was called in.
\<close>

theorem registerStore_requires_reducer:
  "((\<exists>e. fst (registerStore reducerKey options w) = Inl e) \<longleftrightarrow> opt_reducer options = None) \<and>
   (opt_reducer options = None \<longrightarrow> registerStore reducerKey options w = (Inl TypeError, w))"
  by (auto simp: registerStore_def Let_def split: option.splits prod.splits)

theorem registerStore_requires_reducer_witness:
  "registerStore ''key'' \<lparr>opt_reducer = None, opt_actions = Some [(''setValue'', ex_setValue)],
       opt_selectors = Some [(''getValue'', SelectorFn ex_getValue)]\<rparr> (init_world (\<lambda>_. []))
     = (Inl TypeError, init_world (\<lambda>_. []))"
  using registerStore_requires_reducer
    [of "''key''" "\<lparr>opt_reducer = None, opt_actions = Some [(''setValue'', ex_setValue)],
       opt_selectors = Some [(''getValue'', SelectorFn ex_getValue)]\<rparr>" "init_world (\<lambda>_. [])"]
  by simp

text \<open>
  C9. Selectors and actions registered under a key are bound to the store the registry
  held under that key at that moment. After a second \<^verbatim>\<open>registerReducer\<close> with the same
  key the registry holds the new store, and every selector and action registered before
  still reads the state of, and dispatches to, the first store.
\<close>

theorem registrations_bound_to_store_at_registration:
  assumes "registerReducer reducerKey r0 w0 = (store0, wa)"
    and "w1 = registerActions reducerKey newActions (registerSelectors reducerKey newSelectors wa)"
    and "registerReducer reducerKey r1 w1 = (store1, w2)"
  shows "stores w2 reducerKey = Some store1 \<and> store1 \<noteq> store0 \<and>
         keys (select reducerKey w2) = keys newSelectors \<and>
         (\<exists>acts. dispatch reducerKey w2 = Registered acts \<and> keys acts = keys newActions \<and>
            (\<forall>name ba args. getProp acts name = Some ba \<longrightarrow>
               ba_store ba = Some store0 \<and>
               getState store0 (snd (call_action ba args w2))
                 = reduce r0 (getState store0 w2) (ba_action ba args) \<and>
               getState store1 (snd (call_action ba args w2)) = getState store1 w2)) \<and>
         (\<forall>name bs args. getProp (select reducerKey w2) name = Some bs \<longrightarrow>
            bs_store bs = Some store0 \<and>
            call_select bs args w2 = Inr (bs_selector bs (getState store0 w2) args))"
proof -
  have s0: "store0 = length (store_objs w0)" and wa: "store_objs wa = store_objs w0 @ [createStore r0]"
    and sa: "stores wa reducerKey = Some store0"
    using assms(1) by (auto simp: registerReducer_def Let_def)
  have so1: "store_objs w1 = store_objs wa" and st1: "stores w1 = stores wa"
    and sel1: "selectors w1 reducerKey =
       Some (mapValues (\<lambda>selector _.
                 case selector of
                   SelectorFn f \<Rightarrow> \<lparr>se_select = BoundSelect (Some store0) f, se_effect = None\<rparr>
                 | SelectorObj f effect \<Rightarrow> \<lparr>se_select = BoundSelect (Some store0) f, se_effect = effect\<rparr>)
               newSelectors)"
    and act1: "actions w1 reducerKey =
       Some (mapValues (\<lambda>action _. \<lparr>ba_store = Some store0, ba_action = action\<rparr>) newActions)"
    using assms(2) sa by (simp_all add: registerActions_def registerSelectors_def Let_def)
  have s1: "store1 = length (store_objs w1)" and so2: "store_objs w2 = store_objs w1 @ [createStore r1]"
    and st2: "stores w2 reducerKey = Some store1" and sel2: "selectors w2 = selectors w1"
    and act2: "actions w2 = actions w1"
    using assms(3) by (auto simp: registerReducer_def Let_def)
  have lt: "store0 < store1" "store1 < length (store_objs w2)"
    using s0 s1 so1 wa so2 by simp_all
  have red0: "st_reducer (store_objs w2 ! store0) = r0"
    using s0 so1 wa so2 by (simp add: nth_append createStore_def)
  have disp: "getState store0 (snd (store_dispatch store0 a w2)) = reduce r0 (getState store0 w2) a \<and>
              getState store1 (snd (store_dispatch store0 a w2)) = getState store1 w2" for a
  proof -
    obtain r w' where d: "store_dispatch store0 a w2 = (r, w')" by (cases "store_dispatch store0 a w2")
    have len: "store0 < length (store_objs w2)" using lt by simp
    from store_dispatch_effect [OF d len] show ?thesis
      using d lt red0 by (simp add: getState_def)
  qed
  have sel: "select reducerKey w2 = mapValues (\<lambda>selector _. se_select selector)
       (mapValues (\<lambda>selector _.
                 case selector of
                   SelectorFn f \<Rightarrow> \<lparr>se_select = BoundSelect (Some store0) f, se_effect = None\<rparr>
                 | SelectorObj f effect \<Rightarrow> \<lparr>se_select = BoundSelect (Some store0) f, se_effect = effect\<rparr>)
               newSelectors)"
    using sel1 sel2 by (simp add: select_def)
  have bs: "\<exists>f. bs = BoundSelect (Some store0) f" if "getProp (select reducerKey w2) name = Some bs" for name bs
  proof -
    have "\<exists>g. (se_select (case sd of
                   SelectorFn f \<Rightarrow> \<lparr>se_select = BoundSelect (Some store0) f, se_effect = None\<rparr>
                 | SelectorObj f effect \<Rightarrow> \<lparr>se_select = BoundSelect (Some store0) f, se_effect = effect\<rparr>))
            = BoundSelect (Some store0) g" for sd :: "'a selector_def"
      by (cases sd) simp_all
    then show ?thesis using that unfolding sel getProp_mapValues by auto
  qed
  have ba: "ba_store ba = Some store0"
    if "getProp (mapValues (\<lambda>action _. \<lparr>ba_store = Some store0, ba_action = action\<rparr>) newActions) name = Some ba"
    for name and ba :: "'b bound_action"
    using that unfolding getProp_mapValues by auto
  show ?thesis
  proof (intro conjI)
    show "stores w2 reducerKey = Some store1" by (rule st2)
    show "store1 \<noteq> store0" using lt by simp
    show "keys (select reducerKey w2) = keys newSelectors" by (simp add: sel keys_mapValues)
    show "\<exists>acts. dispatch reducerKey w2 = Registered acts \<and> keys acts = keys newActions \<and>
            (\<forall>name ba args. getProp acts name = Some ba \<longrightarrow>
               ba_store ba = Some store0 \<and>
               getState store0 (snd (call_action ba args w2))
                 = reduce r0 (getState store0 w2) (ba_action ba args) \<and>
               getState store1 (snd (call_action ba args w2)) = getState store1 w2)"
      using act1 act2 ba disp by (auto simp: dispatch_def keys_mapValues call_action_def)
    show "\<forall>name bs args. getProp (select reducerKey w2) name = Some bs \<longrightarrow>
            bs_store bs = Some store0 \<and>
            call_select bs args w2 = Inr (bs_selector bs (getState store0 w2) args)"
      using bs lt by (fastforce simp: call_select_def getState_def)
  qed
qed

theorem registrations_bound_to_store_at_registration_witness:
  "stores (snd (registerReducer ''key'' ex_reducer
       (registerActions ''key'' [(''setValue'', ex_setValue)]
          (registerSelectors ''key'' [(''getValue'', SelectorFn ex_getValue)]
             (snd (registerReducer ''key'' ex_reducer (init_world (\<lambda>_. [])))))))) ''key'' = Some 1 \<and>
   keys (select ''key'' (snd (registerReducer ''key'' ex_reducer
       (registerActions ''key'' [(''setValue'', ex_setValue)]
          (registerSelectors ''key'' [(''getValue'', SelectorFn ex_getValue)]
             (snd (registerReducer ''key'' ex_reducer (init_world (\<lambda>_. []))))))))) = [''getValue'']"
proof -
  let ?wa = "snd (registerReducer ''key'' ex_reducer (init_world (\<lambda>_. [])))"
  let ?w1 = "registerActions ''key'' [(''setValue'', ex_setValue)]
          (registerSelectors ''key'' [(''getValue'', SelectorFn ex_getValue)] ?wa)"
  have a: "registerReducer ''key'' ex_reducer (init_world (\<lambda>_. [])) = (0, ?wa)"
    by (simp add: registerReducer_def init_world_def Let_def)
  have b: "registerReducer ''key'' ex_reducer ?w1 = (1, snd (registerReducer ''key'' ex_reducer ?w1))"
    by (simp add: registerReducer_def init_world_def Let_def registerActions_def registerSelectors_def)
  from registrations_bound_to_store_at_registration [OF a refl b]
  show ?thesis by (simp add: keys_def)
qed

text \<open>
  C10, as stated, fails for \<^verbatim>\<open>dispatch\<close>: \<^verbatim>\<open>actions\<close> is a plain object, so for a
  key that names a property of \<^verbatim>\<open>Object.prototype\<close> the lookup \<^verbatim>\<open>actions[ reducerKey ]\<close>
  finds the inherited value. With nothing registered at all, \<^verbatim>\<open>dispatch('toString')\<close>
  is a function, not undefined.
\<close>

theorem dispatch_of_inherited_name_is_not_undefined:
  "dispatch ''toString'' (init_world no_code :: (unit, unit) world) \<noteq> Undefined"
  by (simp add: dispatch_def init_world_def object_prototype_names_def)

text \<open>
  C10, amended. From the initial module state, after any sequence of calls none of which
  registers selectors under the key or under \<^verbatim>\<open>__proto__\<close>, \<^verbatim>\<open>select\<close> of the key is
  the empty mapping. After any sequence none of which registers actions under the key
  or under \<^verbatim>\<open>__proto__\<close>, \<^verbatim>\<open>dispatch\<close> of the key is undefined when the key is not a
  property name of \<^verbatim>\<open>Object.prototype\<close>, and the inherited value when it is.
\<close>

theorem select_and_dispatch_of_unregistered_ordinary_key:
  "(list_all (\<lambda>x. \<not> registers_selectors reducerKey x \<and> \<not> registers_selectors ''__proto__'' x) xs \<longrightarrow>
      select reducerKey (run_ops xs (init_world code)) = []) \<and>
   (list_all (\<lambda>x. \<not> registers_actions reducerKey x \<and> \<not> registers_actions ''__proto__'' x) xs \<longrightarrow>
      dispatch reducerKey (run_ops xs (init_world code)) =
        (if reducerKey \<in> set object_prototype_names then Inherited else Undefined))"
proof (intro conjI impI)
  assume "list_all (\<lambda>x. \<not> registers_selectors reducerKey x \<and> \<not> registers_selectors ''__proto__'' x) xs"
  then have "list_all (\<lambda>x. \<not> registers_selectors reducerKey x) xs"
    and "list_all (\<lambda>x. \<not> registers_selectors ''__proto__'' x) xs"
    by (simp_all add: list_all_iff)
  then have "selectors (run_ops xs (init_world code)) reducerKey = None"
    and "selectors (run_ops xs (init_world code)) ''__proto__'' = None"
    by (simp_all add: selectors_run_ops init_world_def)
  then show "select reducerKey (run_ops xs (init_world code)) = []"
    by (simp add: select_def)
next
  assume "list_all (\<lambda>x. \<not> registers_actions reducerKey x \<and> \<not> registers_actions ''__proto__'' x) xs"
  then have "list_all (\<lambda>x. \<not> registers_actions reducerKey x) xs"
    and "list_all (\<lambda>x. \<not> registers_actions ''__proto__'' x) xs"
    by (simp_all add: list_all_iff)
  then have "actions (run_ops xs (init_world code)) reducerKey = None"
    and "actions (run_ops xs (init_world code)) ''__proto__'' = None"
    by (simp_all add: actions_run_ops init_world_def)
  then show "dispatch reducerKey (run_ops xs (init_world code)) =
        (if reducerKey \<in> set object_prototype_names then Inherited else Undefined)"
    by (simp add: dispatch_def)
qed

theorem select_and_dispatch_of_unregistered_ordinary_key_witness:
  "select ''other'' (run_ops [OpRegisterStore ''key'' ex_options, OpCallAction ''key'' ''setValue'' [JNum 5]]
        (init_world no_code)) = [] \<and>
   dispatch ''other'' (run_ops [OpRegisterStore ''key'' ex_options, OpCallAction ''key'' ''setValue'' [JNum 5]]
        (init_world no_code)) = Undefined"
  using select_and_dispatch_of_unregistered_ordinary_key
    [of "''other''" "[OpRegisterStore ''key'' ex_options, OpCallAction ''key'' ''setValue'' [JNum 5]]" no_code]
  by (simp add: object_prototype_names_def)

text \<open>
  C6. In any world, after \<^verbatim>\<open>registerStore('key', ...)\<close> with the example store,
  \<^verbatim>\<open>dispatch('key').setValue(v)\<close> followed by \<^verbatim>\<open>select('key').getValue()\<close> returns
  \<open>v\<close> (the specification's \<open>v\<close> is 5), whether or not a listener raised during the dispatch.
\<close>

theorem example_store_roundtrip:
  "\<exists>sid w1 acts ba r w2 bs.
     registerStore ''key'' ex_options w = (Inr sid, w1) \<and>
     dispatch ''key'' w1 = Registered acts \<and> getProp acts ''setValue'' = Some ba \<and>
     call_action ba [v] w1 = (r, w2) \<and>
     getProp (select ''key'' w2) ''getValue'' = Some bs \<and>
     call_select bs [] w2 = Inr v"
proof -
  let ?sid = "length (store_objs w)"
  let ?ba = "\<lparr>ba_store = Some ?sid, ba_action = ex_setValue\<rparr>"
  let ?bs = "BoundSelect (Some ?sid) ex_getValue"
  obtain w1 where reg: "registerStore ''key'' ex_options w = (Inr ?sid, w1)"
    by (simp add: registerStore_def ex_options_def registerReducer_def Let_def)
  have so1: "store_objs w1 = store_objs w @ [createStore ex_reducer]"
    and act1: "actions w1 ''key'' = Some [(''setValue'', ?ba)]"
    and sel1: "selectors w1 ''key'' = Some [(''getValue'', \<lparr>se_select = ?bs, se_effect = None\<rparr>)]"
    using reg
    by (auto simp: registerStore_def ex_options_def registerReducer_def Let_def registerActions_def
        registerSelectors_def mapValues_def)
  obtain r w2 where call: "call_action ?ba [v] w1 = (r, w2)" by (cases "call_action ?ba [v] w1")
  then have d: "store_dispatch ?sid (ex_setValue [v]) w1 = (r, w2)" by (simp add: call_action_def)
  have len: "?sid < length (store_objs w1)" using so1 by simp
  from store_dispatch_effect [OF d len]
  have so2: "st_state (store_objs w2 ! ?sid) = reduce ex_reducer (initialState ex_reducer) (ex_setValue [v])"
    and len2: "?sid < length (store_objs w2)" and sel2: "selectors w2 = selectors w1"
    using so1 by (simp_all add: createStore_def)
  have val: "ex_getValue (reduce ex_reducer (initialState ex_reducer) (ex_setValue [v])) [] = v"
    by (simp add: ex_getValue_def ex_reducer_def ex_setValue_def getProp_def setProp_def hasOwnProperty_def keys_def)
  have "getProp (select ''key'' w2) ''getValue'' = Some ?bs"
    using sel1 sel2 by (simp add: select_def mapValues_def getProp_def)
  moreover have "call_select ?bs [] w2 = Inr v"
    using so2 len2 val by (simp add: call_select_def)
  moreover have "dispatch ''key'' w1 = Registered [(''setValue'', ?ba)]" using act1 by (simp add: dispatch_def)
  moreover have "getProp [(''setValue'', ?ba)] ''setValue'' = Some ?ba" by (simp add: getProp_def)
  ultimately show ?thesis using reg call by blast
qed

section \<open>The Dispatch Adapter keeps its callbacks\<close>



section \<open>The Resolution Adapter and selector effects\<close>




section \<open>Unmounting during a notification\<close>

text \<open>
  \<^verbatim>\<open>ComponentWithSelect\<close> latches \<^verbatim>\<open>isUnmounting\<close> when it unmounts, and its
  \<^verbatim>\<open>runSelection\<close> then returns at once: no \<^verbatim>\<open>setState\<close>, no exception.
\<close>

lemma withSelect_runSelection_unmounting:
  "c < length (select_comps w) \<Longrightarrow> sc_isUnmounting (select_comps w ! c) \<Longrightarrow>
     withSelect_runSelection c p w = (Inr (), w)"
  by (simp add: withSelect_runSelection_def)

lemma withSelect_componentWillUnmount_latches:
  "withSelect_componentWillUnmount c w = (Inr u, w') \<Longrightarrow>
     c < length (select_comps w') \<and> sc_isUnmounting (select_comps w' ! c) \<and>
     (\<forall>l. sc_unsubscribe (select_comps w ! c) = Some l \<longrightarrow> l \<notin> set (listeners w'))"
  by (auto simp: withSelect_componentWillUnmount_def upd_select_def without_def
      split: if_splits option.splits)

lemma no_setState_after_unmount_withSelect_example:
  "\<not> setState_after_unmount (SelectComp 0)
     (trace (run_ops ex_unmount_select_calls (init_world (unmount_code (SelectComp 0)))))"
  by (simp add: ex_unmount_select_calls_def model_defs)

text \<open>
  C3 does not hold for \<^verbatim>\<open>withData\<close>: \<^verbatim>\<open>ComponentWithData.componentWillUnmount\<close>
  only unsubscribes, and \<^verbatim>\<open>ComponentWithData.runSelection\<close> has no guard. In
  \<open>ex_unmount_data_calls\<close> the component unmounts during the notification, its
  \<^verbatim>\<open>runSelection\<close> is still among the listeners being visited, and it calls
  \<^verbatim>\<open>setState\<close> after the unmount.
\<close>

theorem setState_after_unmount_withData:
  "setState_after_unmount (DataComp 0)
     (trace (run_ops ex_unmount_data_calls (init_world (unmount_code (DataComp 0)))))"
  by (simp add: ex_unmount_data_calls_def model_defs)

end
